theory Spec2Isabelle
  imports Main "HOL-Library.Sublist" "HOL-Library.List_Lexorder" "HOL-Library.Char_ord"
begin

section \<open>Strings\<close>

text \<open>
  A Python \<open>str\<close> is modelled as a \<open>string\<close> whose characters are the code points
  below 256. The methods of \<open>str\<close> that the analyzer calls are written out here.
\<close>

definition is_space :: "char \<Rightarrow> bool" where
  \<comment> \<open>the code points below 256 for which \<open>str.isspace\<close> holds\<close>
  "is_space c = (c \<in> set [CHR 0x09, CHR 0x0A, CHR 0x0B, CHR 0x0C, CHR 0x0D, CHR 0x1C,
                           CHR 0x1D, CHR 0x1E, CHR 0x1F, CHR 0x20, CHR 0x85, CHR 0xA0])"

definition lower_char :: "char \<Rightarrow> char" where
  "lower_char c =
     (let n = (of_char c :: nat) in
      if (65 \<le> n \<and> n \<le> 90) \<or> (192 \<le> n \<and> n \<le> 214) \<or> (216 \<le> n \<and> n \<le> 222)
      then char_of (n + 32) else c)"

definition lower :: "string \<Rightarrow> string" where
  "lower s = map lower_char s"

definition startswith :: "string \<Rightarrow> string \<Rightarrow> bool" where
  "startswith s p = (take (length p) s = p)"

definition endswith :: "string \<Rightarrow> string \<Rightarrow> bool" where
  "endswith s p = (length p \<le> length s \<and> drop (length s - length p) s = p)"

text \<open>\<open>str_in p s\<close> is Python's \<open>p in s\<close> on strings.\<close>

fun str_in :: "string \<Rightarrow> string \<Rightarrow> bool" where
  "str_in p [] = (p = [])"
| "str_in p (c # cs) = (startswith (c # cs) p \<or> str_in p cs)"

text \<open>\<open>str_split s\<close> is \<open>s.split()\<close>: the maximal runs of non-whitespace characters.\<close>

fun split_acc :: "string \<Rightarrow> string \<Rightarrow> string list" where
  "split_acc w [] = (if w = [] then [] else [w])"
| "split_acc w (c # cs) =
     (if is_space c then (if w = [] then split_acc [] cs else w # split_acc [] cs)
      else split_acc (w @ [c]) cs)"

definition str_split :: "string \<Rightarrow> string list" where
  "str_split s = split_acc [] s"

definition strip :: "string \<Rightarrow> string" where
  "strip s = rev (dropWhile is_space (rev (dropWhile is_space s)))"

text \<open>
  \<open>str_remove s old\<close> is \<open>s.replace(old, '')\<close>: the occurrences of \<open>old\<close> are found from
  left to right without overlap and dropped; the text left of an occurrence is not
  scanned again.
\<close>

function str_remove :: "string \<Rightarrow> string \<Rightarrow> string" where
  "str_remove [] old = []"
| "str_remove (c # cs) old =
     (if old \<noteq> [] \<and> startswith (c # cs) old
      then str_remove (drop (length old) (c # cs)) old
      else c # str_remove cs old)"
  by pat_completeness auto
termination
  by (relation "measure (\<lambda>(s, old). length s)") auto

section \<open>The redirect resolver\<close>

text \<open>
  A status-code slot of a redirect chain holds either the integer status of a response
  or the string \<open>'ERROR'\<close> that \<open>check_redirect_chain\<close> stores when the request failed.
\<close>

datatype status = Code int | ERROR

text \<open>
  What \<open>session.head(url, allow_redirects=True, timeout=10)\<close> gives back: the responses
  of the intermediate hops (\<open>response.history\<close>, each with its \<open>status_code\<close> and
  \<open>url\<close>), and the \<open>url\<close> and \<open>status_code\<close> of the last response. The request is made by
  the HTTP library; its outcome is an input of the model, \<open>Inl msg\<close> when the call raised
  an exception whose text is \<open>msg\<close>.
\<close>

record hop =
  hop_status_code :: int
  hop_url :: string

record head_response =
  resp_history :: "hop list"
  resp_url :: string
  resp_status_code :: int

type_synonym head_outcome = "string + head_response"

record redirect_info =
  ri_is_redirect :: bool
  ri_original_url :: string
  ri_final_url :: string
  ri_redirect_count :: nat
  ri_status_codes :: "status list"
  ri_redirect_chain :: "string list"
  ri_error :: "string option"

definition check_redirect_chain :: "head_outcome \<Rightarrow> string \<Rightarrow> redirect_info" where
  "check_redirect_chain outcome url =
     (case outcome of
        Inr response \<Rightarrow>
          (let redirect_count = length (resp_history response) in
           if redirect_count > 0 then
             \<lparr> ri_is_redirect = True,
               ri_original_url = url,
               ri_final_url = resp_url response,
               ri_redirect_count = redirect_count,
               ri_status_codes =
                 map (\<lambda>r. Code (hop_status_code r)) (resp_history response)
                   @ [Code (resp_status_code response)],
               ri_redirect_chain =
                 map hop_url (resp_history response) @ [resp_url response],
               ri_error = None \<rparr>
           else
             \<lparr> ri_is_redirect = False,
               ri_original_url = url,
               ri_final_url = url,
               ri_redirect_count = 0,
               ri_status_codes = [Code (resp_status_code response)],
               ri_redirect_chain = [url],
               ri_error = None \<rparr>)
      | Inl e \<Rightarrow>
          \<lparr> ri_is_redirect = False,
            ri_original_url = url,
            ri_final_url = url,
            ri_redirect_count = 0,
            ri_status_codes = [ERROR],
            ri_redirect_chain = [url],
            ri_error = Some e \<rparr>)"

section \<open>Anchor text: extraction and classification\<close>

text \<open>
  A hyperlink element as the HTML parser hands it over. \<open>link_text\<close> is
  \<open>link.get_text(strip=True)\<close>; \<open>link_img\<close> is \<open>link.find('img')\<close>, \<open>None\<close> when the link
  contains no image and otherwise the image's \<open>alt\<close> attribute if it has one;
  \<open>link_href\<close> is the \<open>href\<close> attribute if present; \<open>link_tag\<close> is \<open>str(link)\<close>.
  \<open>link_head\<close> is the outcome of the metadata request that \<open>check_redirect_chain\<close> sends
  for this link, should it send one.
\<close>

record link =
  link_text :: string
  link_img :: "string option option"
  link_href :: "string option"
  link_tag :: string
  link_head :: head_outcome

definition get_attr :: "string option \<Rightarrow> string \<Rightarrow> string" where
  \<comment> \<open>\<open>tag.get(name, default)\<close>\<close>
  "get_attr a dflt = (case a of None \<Rightarrow> dflt | Some v \<Rightarrow> v)"

definition extract_anchor_text :: "link \<Rightarrow> string" where
  "extract_anchor_text l =
     (let text = link_text l in
      if text \<noteq> [] then text
      else
        (case link_img l of
           Some img \<Rightarrow>
             (let alt_text = strip (get_attr img []) in
              if alt_text \<noteq> [] then ''[Image: '' @ alt_text @ '']''
              else ''[Image with missing alt text]'')
         | None \<Rightarrow>
             (let href = get_attr (link_href l) [] in
              if href \<noteq> [] then
                (let clean_url =
                       str_remove (str_remove (str_remove href ''http://'') ''https://'') ''www.'';
                     clean_url = (if endswith clean_url ''/'' then butlast clean_url
                                  else clean_url)
                 in ''[Naked URL: '' @ clean_url @ '']'')
              else ''[Empty link]'')))"

definition classify_anchor_text :: "string \<Rightarrow> link option \<Rightarrow> string" where
  "classify_anchor_text text l =
     (let text_lower = lower text in
      if startswith text ''[Image'' then ''image''
      else if startswith text ''[Naked URL'' then ''naked_url''
      else if startswith text ''[Empty'' then ''empty''
      else if list_ex (\<lambda>word. str_in word text_lower)
                [''click here'', ''read more'', ''learn more'', ''see more'']
        then ''generic''
      else if length (str_split text) > 8 then ''long_descriptive''
      else if length (str_split text) \<le> 2 then ''short''
      else ''descriptive'')"

text \<open>
  The anchor text rule as the specification words it, for comparison with
  \<open>extract_anchor_text\<close>: the label of a link without text and image is the href with a
  leading scheme and a leading \<open>www.\<close> taken off, and an image's alt text is used as it
  is.
\<close>

definition strip_leading :: "string \<Rightarrow> string \<Rightarrow> string" where
  "strip_leading p s = (if prefix p s then drop (length p) s else s)"

definition spec_anchor_text :: "link \<Rightarrow> string" where
  "spec_anchor_text l =
     (if link_text l \<noteq> [] then link_text l
      else case link_img l of
        Some img \<Rightarrow>
          (if get_attr img [] \<noteq> [] then ''[Image: '' @ get_attr img [] @ '']''
           else ''[Image with missing alt text]'')
      | None \<Rightarrow>
          (if get_attr (link_href l) [] \<noteq> [] then
             ''[Naked URL: ''
               @ strip_leading ''www.''
                   (strip_leading ''https://'' (strip_leading ''http://''
                      (get_attr (link_href l) [])))
               @ '']''
           else ''[Empty link]''))"


section \<open>The crawl state and its collaborators\<close>

text \<open>
  The three collections a crawl fills. An \<open>anchor_data\<close> is one entry of
  \<open>self.anchor_tags\<close>, a \<open>redirect_link\<close> one entry of \<open>self.redirect_links\<close>, and an
  \<open>analysis_item\<close> one entry of a list in \<open>self.anchor_text_analysis\<close>. The \<open>attributes\<close>
  and \<open>timestamp\<close> entries of the source's dictionaries are left out: nothing reads them
  but the report writers.
\<close>

record anchor_data =
  a_id :: nat
  a_page_url :: string
  a_page_depth :: int
  a_original_href :: string
  a_absolute_url :: string
  a_anchor_text :: string
  a_anchor_text_type :: string
  a_is_internal :: bool
  a_redirect_info :: "redirect_info option"
  a_extraction_method :: string
  a_anchor_index_on_page :: nat
  a_full_tag :: string

record redirect_link =
  rl_page_containing_link :: string
  rl_link_text :: string
  rl_original_url :: string
  rl_final_url :: string
  rl_redirect_count :: nat
  rl_redirect_chain :: "string list"
  rl_status_codes :: "status list"
  rl_full_tag :: string
  rl_page_depth :: int

record analysis_item =
  it_text :: string
  it_text_type :: string
  it_source_page :: string
  it_is_redirect :: bool

text \<open>
  The fields of \<open>WebsiteAnalyzer\<close> that the crawl reads and writes. The dictionary
  \<open>anchor_text_analysis\<close> is a \<open>defaultdict(list)\<close>; it is kept as an association list in
  insertion order, each key once.
\<close>

record analyzer =
  base_url :: string
  domain :: string
  visited_urls :: "string set"
  urls_to_visit :: "(string \<times> int) list"
  anchor_tags :: "anchor_data list"
  redirect_links :: "redirect_link list"
  anchor_text_analysis :: "(string \<times> analysis_item list) list"
  max_pages :: int
  max_depth :: int
  crawl_complete :: bool
  selenium_threshold :: int

text \<open>
  A response of \<open>session.get\<close> whose status passed \<open>raise_for_status\<close>: the
  \<open>content-type\<close> header if there is one, the body, and the \<open>a\<close> elements with an \<open>href\<close>
  attribute that the HTML parser finds in the body once \<open>script\<close> and \<open>style\<close> elements
  are removed, in document order.
\<close>

record page_response =
  page_content_type :: "string option"
  page_text :: string
  page_links :: "link list"

text \<open>
  Everything outside the analyzer, as parameters. \<open>urljoin\<close>, \<open>urlparse\<close> and \<open>urldefrag\<close>
  are the functions of \<open>urllib.parse\<close>, \<open>Inl\<close> or \<open>None\<close> where they raise; of a parsed URL
  only the \<open>netloc\<close> and the \<open>path\<close> are used. \<open>session_get url\<close> is the outcome of
  \<open>session.get(url, timeout=15)\<close> followed by \<open>raise_for_status()\<close>, \<open>Inl msg\<close> when either
  raises. \<open>driver_links url\<close> is what the browser driver yields for \<open>url\<close>: the links
  parsed from \<open>driver.page_source\<close>, or \<open>None\<close> when no driver could be set up or loading
  the page raised.
\<close>

record library =
  urljoin :: "string \<Rightarrow> string \<Rightarrow> string + string"
  urlparse :: "string \<Rightarrow> (string \<times> string) option"
  urldefrag :: "string \<Rightarrow> string option"
  SELENIUM_AVAILABLE :: bool
  session_get :: "string \<Rightarrow> string + page_response"
  driver_links :: "string \<Rightarrow> link list option"

section \<open>The analyzer\<close>

definition clean_url :: "library \<Rightarrow> string \<Rightarrow> string option" where
  "clean_url lib url =
     (let url = (if \<not> (startswith url ''http://'' \<or> startswith url ''https://'')
                 then ''https://'' @ url else url)
      in urldefrag lib url)"

definition analyzer_init :: "library \<Rightarrow> string \<Rightarrow> int \<Rightarrow> int \<Rightarrow> int \<Rightarrow> analyzer option" where
  "analyzer_init lib seed mp md threshold =
     (case clean_url lib seed of
        None \<Rightarrow> None
      | Some b \<Rightarrow>
          (case urlparse lib b of
             None \<Rightarrow> None
           | Some (netloc, path) \<Rightarrow>
               Some \<lparr> base_url = b,
                      domain = netloc,
                      visited_urls = {},
                      urls_to_visit = [(b, 0)],
                      anchor_tags = [],
                      redirect_links = [],
                      anchor_text_analysis = [],
                      max_pages = mp,
                      max_depth = md,
                      crawl_complete = False,
                      selenium_threshold = threshold \<rparr>))"

definition skip_extensions :: "string list" where
  "skip_extensions = [''.jpg'', ''.jpeg'', ''.png'', ''.gif'', ''.pdf'', ''.zip'',
                      ''.css'', ''.js'', ''.ico'', ''.svg'', ''.woff'', ''.woff2'']"

definition is_valid_internal_url :: "library \<Rightarrow> analyzer \<Rightarrow> string \<Rightarrow> bool" where
  "is_valid_internal_url lib self url =
     (case urlparse lib url of
        None \<Rightarrow> False
      | Some (netloc, path) \<Rightarrow>
          if netloc \<noteq> domain self then False
          else if list_ex (\<lambda>ext. endswith (lower path) ext) skip_extensions then False
          else True)"

text \<open>\<open>dd_append d k v\<close> is \<open>d[k].append(v)\<close> on a \<open>defaultdict(list)\<close>.\<close>

fun dd_append :: "('k \<times> 'v list) list \<Rightarrow> 'k \<Rightarrow> 'v \<Rightarrow> ('k \<times> 'v list) list" where
  "dd_append [] k v = [(k, [v])]"
| "dd_append ((k', vs) # d) k v =
     (if k' = k then (k', vs @ [v]) # d else (k', vs) # dd_append d k v)"

text \<open>
  The body of the loop of \<open>extract_anchor_data\<close> after the \<open>anchor_data\<close> of a link is
  built, in the three blocks of the source: store the redirect, extend the anchor text
  analysis, extend the crawl queue.
\<close>

definition final_url_of :: "redirect_info option \<Rightarrow> string \<Rightarrow> string" where
  \<comment> \<open>\<open>redirect_info['final_url'] if redirect_info else absolute_url\<close>\<close>
  "final_url_of redirect_info absolute_url =
     (case redirect_info of Some ri \<Rightarrow> ri_final_url ri | None \<Rightarrow> absolute_url)"

definition store_redirect ::
  "analyzer \<Rightarrow> string \<Rightarrow> int \<Rightarrow> link \<Rightarrow> string \<Rightarrow> redirect_info option \<Rightarrow> analyzer" where
  "store_redirect self page_url depth l anchor_text redirect_info =
     (case redirect_info of
        Some ri \<Rightarrow>
          if ri_is_redirect ri then
            self\<lparr> redirect_links := redirect_links self @
              [\<lparr> rl_page_containing_link = page_url,
                 rl_link_text = anchor_text,
                 rl_original_url = ri_original_url ri,
                 rl_final_url = ri_final_url ri,
                 rl_redirect_count = ri_redirect_count ri,
                 rl_redirect_chain = ri_redirect_chain ri,
                 rl_status_codes = ri_status_codes ri,
                 rl_full_tag = link_tag l,
                 rl_page_depth = depth \<rparr>] \<rparr>
          else self
      | None \<Rightarrow> self)"

definition build_analysis ::
  "analyzer \<Rightarrow> string \<Rightarrow> link \<Rightarrow> string \<Rightarrow> bool \<Rightarrow> redirect_info option \<Rightarrow> string
     \<Rightarrow> analyzer" where
  "build_analysis self page_url l anchor_text is_internal redirect_info absolute_url =
     (if is_internal then
        self\<lparr> anchor_text_analysis :=
          dd_append (anchor_text_analysis self) (final_url_of redirect_info absolute_url)
            \<lparr> it_text = anchor_text,
              it_text_type = classify_anchor_text anchor_text (Some l),
              it_source_page = page_url,
              it_is_redirect =
                (case redirect_info of Some ri \<Rightarrow> ri_is_redirect ri | None \<Rightarrow> False) \<rparr> \<rparr>
      else self)"

definition add_to_queue ::
  "analyzer \<Rightarrow> int \<Rightarrow> bool \<Rightarrow> redirect_info option \<Rightarrow> string \<Rightarrow> analyzer" where
  "add_to_queue self depth is_internal redirect_info absolute_url =
     (if is_internal \<and> depth < max_depth self then
        (let final_url = final_url_of redirect_info absolute_url in
         if final_url \<notin> visited_urls self
            \<and> int (length (urls_to_visit self)) < max_pages self
         then self\<lparr> urls_to_visit := urls_to_visit self @ [(final_url, depth + 1)] \<rparr>
         else self)
      else self)"

text \<open>
  What the loop of \<open>extract_anchor_data\<close> does with a link that it does not skip, once
  \<open>urljoin\<close> has given the absolute URL: it builds the entry of the link, appends it to
  \<open>page_anchors\<close> and runs the three blocks.
\<close>

definition record_link ::
  "library \<Rightarrow> string \<Rightarrow> int \<Rightarrow> string \<Rightarrow> nat \<Rightarrow> link \<Rightarrow> string \<Rightarrow> string \<Rightarrow> analyzer
     \<Rightarrow> anchor_data list \<Rightarrow> analyzer \<times> anchor_data list" where
  "record_link lib page_url depth method index l href absolute_url self page_anchors =
     (let anchor_text = extract_anchor_text l;
          is_internal = is_valid_internal_url lib self absolute_url;
          redirect_info =
            (if is_internal then Some (check_redirect_chain (link_head l) absolute_url)
             else None);
          anchor_data =
            \<lparr> a_id = length (anchor_tags self) + length page_anchors + 1,
              a_page_url = page_url,
              a_page_depth = depth,
              a_original_href = href,
              a_absolute_url = absolute_url,
              a_anchor_text = anchor_text,
              a_anchor_text_type = classify_anchor_text anchor_text (Some l),
              a_is_internal = is_internal,
              a_redirect_info = redirect_info,
              a_extraction_method = method,
              a_anchor_index_on_page = index + 1,
              a_full_tag = link_tag l \<rparr>;
          page_anchors = page_anchors @ [anchor_data];
          self = store_redirect self page_url depth l anchor_text redirect_info;
          self = build_analysis self page_url l anchor_text is_internal redirect_info
                   absolute_url;
          self = add_to_queue self depth is_internal redirect_info absolute_url
      in (self, page_anchors))"

text \<open>
  The loop of \<open>extract_anchor_data\<close> over \<open>enumerate(links)\<close>. The result is the analyzer
  as the loop leaves it and the list \<open>page_anchors\<close>, or \<open>Inl msg\<close> in its place when
  \<open>urljoin\<close> raised: what the loop wrote to the analyzer before stays written.
\<close>

fun extract_loop ::
  "library \<Rightarrow> string \<Rightarrow> int \<Rightarrow> string \<Rightarrow> nat \<Rightarrow> link list \<Rightarrow> analyzer \<Rightarrow> anchor_data list
     \<Rightarrow> analyzer \<times> (string + anchor_data list)" where
  "extract_loop lib page_url depth method index [] self page_anchors =
     (self, Inr page_anchors)"
| "extract_loop lib page_url depth method index (l # links) self page_anchors =
     (let href = strip (get_attr (link_href l) []) in
      if href = [] \<or> startswith href ''javascript:'' \<or> startswith href ''tel:'' then
        extract_loop lib page_url depth method (index + 1) links self page_anchors
      else
        (case urljoin lib page_url href of
           Inl e \<Rightarrow> (self, Inl e)
         | Inr absolute_url \<Rightarrow>
             (case record_link lib page_url depth method index l href absolute_url self
                     page_anchors of
                (self, page_anchors) \<Rightarrow>
                  extract_loop lib page_url depth method (index + 1) links self
                    page_anchors)))"

definition extract_anchor_data ::
  "library \<Rightarrow> analyzer \<Rightarrow> link list \<Rightarrow> string \<Rightarrow> int \<Rightarrow> string
     \<Rightarrow> analyzer \<times> (string + anchor_data list)" where
  "extract_anchor_data lib self links page_url depth method =
     (case extract_loop lib page_url depth method 0 links self [] of
        (self, Inl e) \<Rightarrow> (self, Inl e)
      | (self, Inr page_anchors) \<Rightarrow>
          (self\<lparr> anchor_tags := anchor_tags self @ page_anchors \<rparr>, Inr page_anchors))"

definition spa_indicators :: "string list" where
  "spa_indicators = [''react'', ''angular'', ''vue.js'', ''data-reactroot'', ''ng-app'']"

text \<open>Of the pair that \<open>should_use_selenium\<close> returns, the reason is only printed.\<close>

definition should_use_selenium :: "library \<Rightarrow> analyzer \<Rightarrow> string \<Rightarrow> string \<Rightarrow> nat \<Rightarrow> bool" where
  "should_use_selenium lib self url response_text initial_link_count =
     (if \<not> SELENIUM_AVAILABLE lib then False
      else if int initial_link_count < selenium_threshold self then True
      else if list_ex (\<lambda>indicator. str_in indicator (lower response_text)) spa_indicators
        then True
      else False)"

definition extract_anchor_data_selenium ::
  "library \<Rightarrow> analyzer \<Rightarrow> string \<Rightarrow> int \<Rightarrow> analyzer \<times> anchor_data list" where
  "extract_anchor_data_selenium lib self url depth =
     (case driver_links lib url of
        None \<Rightarrow> (self, [])
      | Some links \<Rightarrow>
          (case extract_anchor_data lib self links url depth ''selenium'' of
             (self, Inl e) \<Rightarrow> (self, [])
           | (self, Inr anchors) \<Rightarrow> (self, anchors)))"

text \<open>
  The three statements of \<open>crawl_page\<close> that remove what the first pass stored for the
  page before the page is extracted again through the browser.
\<close>

definition remove_initial_anchors :: "analyzer \<Rightarrow> string \<Rightarrow> analyzer" where
  "remove_initial_anchors self url =
     self\<lparr> anchor_tags := filter (\<lambda>a. a_page_url a \<noteq> url) (anchor_tags self),
           redirect_links :=
             filter (\<lambda>r. rl_page_containing_link r \<noteq> url) (redirect_links self),
           anchor_text_analysis :=
             map (\<lambda>(final_url, items).
                    (final_url, filter (\<lambda>item. it_source_page item \<noteq> url) items))
               (anchor_text_analysis self) \<rparr>"

text \<open>The message of the pair that \<open>crawl_page\<close> returns, by the branch that built it.\<close>

datatype message =
    Non_HTML_content string
  | Requests_Found nat
  | Selenium_Found nat
  | Error string

definition crawl_page :: "library \<Rightarrow> analyzer \<Rightarrow> string \<Rightarrow> int \<Rightarrow> analyzer \<times> bool \<times> message" where
  "crawl_page lib self url depth =
     (case session_get lib url of
        Inl e \<Rightarrow> (self, False, Error e)
      | Inr response \<Rightarrow>
          (let content_type = lower (get_attr (page_content_type response) []) in
           if \<not> str_in ''text/html'' content_type
           then (self, False, Non_HTML_content content_type)
           else
             (case extract_anchor_data lib self (page_links response) url depth ''requests'' of
                (self, Inl e) \<Rightarrow> (self, False, Error e)
              | (self, Inr initial_anchors) \<Rightarrow>
                  (let initial_count = length initial_anchors in
                   if should_use_selenium lib self url (page_text response) initial_count
                   then
                     (let self = remove_initial_anchors self url;
                          (self, selenium_anchors) =
                             extract_anchor_data_selenium lib self url depth
                      in (self, True, Selenium_Found (length selenium_anchors)))
                   else (self, True, Requests_Found initial_count)))))"

text \<open>
  One pass through the body of the \<open>while\<close> loop of \<open>start_analysis\<close>, on the analyzer and
  the local counter \<open>crawled_count\<close>; \<open>None\<close> when the loop condition is false.
\<close>

definition loop_body :: "library \<Rightarrow> analyzer \<times> int \<Rightarrow> (analyzer \<times> int) option" where
  "loop_body lib st =
     (let (self, crawled_count) = st in
      case urls_to_visit self of
        [] \<Rightarrow> None
      | (url, depth) # rest \<Rightarrow>
          if \<not> crawled_count < max_pages self then None
          else
            (let self = self\<lparr> urls_to_visit := rest \<rparr> in
             if url \<in> visited_urls self \<or> depth > max_depth self
             then Some (self, crawled_count)
             else
               (let self = self\<lparr> visited_urls := insert url (visited_urls self) \<rparr>;
                    (self, success, message) = crawl_page lib self url depth
                in if success then Some (self, crawled_count + 1)
                   else Some (self, crawled_count))))"

text \<open>
  The loop, with fuel: \<open>None\<close> when \<open>n\<close> passes did not make the loop condition false.
  \<open>iterations n lib st\<close> is the state after \<open>n\<close> passes, or after the last one when the
  loop ends earlier.
\<close>

fun iterations :: "nat \<Rightarrow> library \<Rightarrow> analyzer \<times> int \<Rightarrow> analyzer \<times> int" where
  "iterations 0 lib st = st"
| "iterations (Suc n) lib st =
     (case loop_body lib st of None \<Rightarrow> st | Some st' \<Rightarrow> iterations n lib st')"

fun while_loop :: "nat \<Rightarrow> library \<Rightarrow> analyzer \<times> int \<Rightarrow> (analyzer \<times> int) option" where
  "while_loop 0 lib st = (case loop_body lib st of None \<Rightarrow> Some st | Some st' \<Rightarrow> None)"
| "while_loop (Suc n) lib st =
     (case loop_body lib st of None \<Rightarrow> Some st | Some st' \<Rightarrow> while_loop n lib st')"

definition start_analysis :: "nat \<Rightarrow> library \<Rightarrow> analyzer \<Rightarrow> analyzer option" where
  "start_analysis n lib self =
     (case while_loop n lib (self, 0) of
        None \<Rightarrow> None
      | Some (self, crawled_count) \<Rightarrow> Some (self\<lparr> crawl_complete := True \<rparr>))"

section \<open>The queries on a finished crawl\<close>

text \<open>
  The routes read the global \<open>current_analyzer\<close>, which is \<open>None\<close> until a crawl has been
  started. \<open>get_all_urls\<close> answers with the error of its guard, as \<open>Inl\<close>, or with the
  sorted keys of the anchor text analysis and their number. Of the status report only
  the count \<open>unique_urls_with_anchors\<close> is modelled.
\<close>

definition get_all_urls :: "analyzer option \<Rightarrow> string + string list \<times> nat" where
  "get_all_urls current_analyzer =
     (case current_analyzer of
        None \<Rightarrow> Inl ''No completed analysis data available''
      | Some a \<Rightarrow>
          if \<not> crawl_complete a then Inl ''No completed analysis data available''
          else
            (let urls = sort (map fst (anchor_text_analysis a))
             in Inr (urls, length urls)))"

definition unique_urls_with_anchors :: "analyzer \<Rightarrow> nat" where
  "unique_urls_with_anchors a = length (anchor_text_analysis a)"

section \<open>What a page leaves untouched\<close>

text \<open>
  \<open>items_for d k\<close> are the entries that the loop \<open>for url, anchor_texts in d.items()\<close> of
  \<open>get_anchor_text_report_for_url\<close> collects for the key \<open>k\<close>. \<open>other_pages url s s'\<close>
  says that \<open>s'\<close> holds, for every page other than \<open>url\<close>, the entries that \<open>s\<close> holds, in
  the same order, that no key of the anchor text analysis is lost, and that the visited
  set, the limits and the domain are the same.
\<close>

definition items_for :: "(string \<times> analysis_item list) list \<Rightarrow> string \<Rightarrow> analysis_item list" where
  "items_for d k = concat (map snd (filter (\<lambda>(u, items). u = k) d))"

definition other_pages :: "string \<Rightarrow> analyzer \<Rightarrow> analyzer \<Rightarrow> bool" where
  "other_pages url s s' =
     (filter (\<lambda>a. a_page_url a \<noteq> url) (anchor_tags s')
        = filter (\<lambda>a. a_page_url a \<noteq> url) (anchor_tags s)
      \<and> filter (\<lambda>r. rl_page_containing_link r \<noteq> url) (redirect_links s')
        = filter (\<lambda>r. rl_page_containing_link r \<noteq> url) (redirect_links s)
      \<and> (\<forall>k. filter (\<lambda>i. it_source_page i \<noteq> url) (items_for (anchor_text_analysis s') k)
             = filter (\<lambda>i. it_source_page i \<noteq> url) (items_for (anchor_text_analysis s) k))
      \<and> fst ` set (anchor_text_analysis s) \<subseteq> fst ` set (anchor_text_analysis s')
      \<and> visited_urls s' = visited_urls s
      \<and> max_pages s' = max_pages s
      \<and> max_depth s' = max_depth s
      \<and> domain s' = domain s)"


section \<open>The iterations of the crawl loop\<close>

text \<open>
  \<open>frontiers n lib st\<close> lists the crawl queue as it stands before each of the first \<open>n\<close>
  passes of the loop and after the last of them. An entry stays in the queue from the
  moment it is appended to the end of that pass at least, since only the \<open>pop(0)\<close> at the
  start of a pass removes entries: so \<open>enqueued n lib st\<close>, the entries of all these
  queues, are the entries that were ever in the queue during these passes.
\<close>

fun frontiers :: "nat \<Rightarrow> library \<Rightarrow> analyzer \<times> int \<Rightarrow> (string \<times> int) list list" where
  "frontiers 0 lib st = [urls_to_visit (fst st)]"
| "frontiers (Suc n) lib st =
     urls_to_visit (fst st) #
       (case loop_body lib st of None \<Rightarrow> [] | Some st' \<Rightarrow> frontiers n lib st')"

definition enqueued :: "nat \<Rightarrow> library \<Rightarrow> analyzer \<times> int \<Rightarrow> (string \<times> int) list" where
  "enqueued n lib st = concat (frontiers n lib st)"

text \<open>
  \<open>frontier_ok s\<close>: the crawl queue of \<open>s\<close> holds at most \<open>max_pages\<close> entries, or one if
  \<open>max_pages\<close> is smaller, and each entry is at depth 0 or at a depth from 1 to
  \<open>max_depth\<close>.
\<close>

definition frontier_ok :: "analyzer \<Rightarrow> bool" where
  "frontier_ok s =
     (int (length (urls_to_visit s)) \<le> max 1 (max_pages s)
      \<and> list_all (\<lambda>(u, d). d = 0 \<or> (0 < d \<and> d \<le> max_depth s)) (urls_to_visit s))"

section \<open>An example site\<close>

text \<open>
  A site of a few pages, for evaluating the definitions. The seed page
  \<open>https://a.test\<close> links to \<open>/b\<close>, which is a PDF document served without a file
  extension, and to \<open>/old\<close>, which redirects to \<open>/new\<close>. Rendered in the browser, the seed
  page shows a single link, to \<open>/c\<close>, whose metadata request times out. All hrefs of the
  site are absolute, so \<open>urljoin\<close> returns them as they are.
\<close>

definition ex_link_b :: link where
  "ex_link_b =
     \<lparr> link_text = ''Click here'', link_img = None, link_href = Some ''https://a.test/b'',
       link_tag = ''<a href=https://a.test/b>Click here</a>'',
       link_head = Inr \<lparr> resp_history = [], resp_url = ''https://a.test/b'',
                         resp_status_code = 200 \<rparr> \<rparr>"

definition ex_link_old :: link where
  "ex_link_old =
     \<lparr> link_text = ''Old page'', link_img = None, link_href = Some ''https://a.test/old'',
       link_tag = ''<a href=https://a.test/old>Old page</a>'',
       link_head = Inr \<lparr> resp_history =
                           [\<lparr> hop_status_code = 301, hop_url = ''https://a.test/old'' \<rparr>],
                         resp_url = ''https://a.test/new'', resp_status_code = 200 \<rparr> \<rparr>"

definition ex_link_c :: link where
  "ex_link_c =
     \<lparr> link_text = ''Contact'', link_img = None, link_href = Some ''https://a.test/c'',
       link_tag = ''<a href=https://a.test/c>Contact</a>'',
       link_head = Inl ''timed out'' \<rparr>"

definition ex_lib :: library where
  "ex_lib =
     \<lparr> urljoin = (\<lambda>base href. Inr href),
       urlparse = (\<lambda>u. if startswith u ''https://a.test''
                        then Some (''a.test'', drop 14 u) else None),
       urldefrag = (\<lambda>u. Some (takeWhile (\<lambda>c. c \<noteq> CHR ''#'') u)),
       SELENIUM_AVAILABLE = True,
       session_get = (\<lambda>u.
         if u = ''https://a.test'' then
           Inr \<lparr> page_content_type = Some ''text/html; charset=utf-8'',
                 page_text = ''<html><body>two links</body></html>'',
                 page_links = [ex_link_b, ex_link_old] \<rparr>
         else if u = ''https://a.test/b'' then
           Inr \<lparr> page_content_type = Some ''application/pdf'',
                 page_text = ''%PDF-1.4'', page_links = [] \<rparr>
         else Inl ''404 Client Error''),
       driver_links = (\<lambda>u. if u = ''https://a.test'' then Some [ex_link_c] else None) \<rparr>"

text \<open>
  The analyzer for the example site as its constructor leaves it, for the given limits
  and threshold.
\<close>

definition ex_analyzer :: "int \<Rightarrow> int \<Rightarrow> int \<Rightarrow> analyzer" where
  "ex_analyzer mp md threshold =
     \<lparr> base_url = ''https://a.test'',
       domain = ''a.test'',
       visited_urls = {},
       urls_to_visit = [(''https://a.test'', 0)],
       anchor_tags = [],
       redirect_links = [],
       anchor_text_analysis = [],
       max_pages = mp,
       max_depth = md,
       crawl_complete = False,
       selenium_threshold = threshold \<rparr>"
section \<open>Properties of the redirect resolver\<close>

text \<open>
  Claim C4. Whatever the outcome of the metadata request (a response with redirects, a
  response without, or an exception), the value returned by \<open>check_redirect_chain\<close> has as
  many status codes as chain URLs, namely the hop count plus one, and a hop count of
  zero comes with a final URL equal to the original URL.
\<close>

theorem redirect_chain_consistency:
  "length (ri_status_codes (check_redirect_chain outcome url))
      = ri_redirect_count (check_redirect_chain outcome url) + 1
   \<and> length (ri_redirect_chain (check_redirect_chain outcome url))
      = ri_redirect_count (check_redirect_chain outcome url) + 1
   \<and> (ri_redirect_count (check_redirect_chain outcome url) = 0
        \<longrightarrow> ri_original_url (check_redirect_chain outcome url)
            = ri_final_url (check_redirect_chain outcome url))"
  by (cases outcome) (simp_all add: check_redirect_chain_def Let_def)

theorem redirect_chain_consistency_witness:
  "ri_redirect_count (check_redirect_chain
      (Inr \<lparr> resp_history = [], resp_url = ''https://a.test/x'', resp_status_code = 200 \<rparr>)
      ''https://a.test/x'') = 0
   \<and> ri_original_url (check_redirect_chain
      (Inr \<lparr> resp_history = [], resp_url = ''https://a.test/x'', resp_status_code = 200 \<rparr>)
      ''https://a.test/x'')
     = ri_final_url (check_redirect_chain
      (Inr \<lparr> resp_history = [], resp_url = ''https://a.test/x'', resp_status_code = 200 \<rparr>)
      ''https://a.test/x'')"
  using redirect_chain_consistency
    [of "Inr \<lparr> resp_history = [], resp_url = ''https://a.test/x'', resp_status_code = 200 \<rparr>"
        "''https://a.test/x''"]
  by (simp add: check_redirect_chain_def)


section \<open>Properties of anchor text extraction and classification\<close>

lemma startswith_prefix: "startswith s p = prefix p s"
  by (auto simp: startswith_def prefix_def) (metis append_eq_conv_conj)

lemma endswith_suffix: "endswith s p = suffix p s"
proof
  assume "endswith s p"
  then have "s = take (length s - length p) s @ p"
    by (simp add: endswith_def) (metis append_take_drop_id)
  then show "suffix p s"
    by (metis suffixI)
next
  assume "suffix p s"
  then obtain zs where "s = zs @ p"
    by (auto simp: suffix_def)
  then show "endswith s p"
    by (simp add: endswith_def)
qed

lemma str_in_sublist: "str_in p s = sublist p s"
  by (induction s) (auto simp: startswith_prefix sublist_Cons_right)

lemma split_acc_nonempty: "w' \<in> set (split_acc w s) \<Longrightarrow> w' \<noteq> []"
  by (induction w s rule: split_acc.induct) (auto split: if_splits)

lemma split_acc_concat:
  "(\<forall>c \<in> set w. \<not> is_space c)
     \<Longrightarrow> concat (split_acc w s) = w @ filter (\<lambda>c. \<not> is_space c) s"
  by (induction w s rule: split_acc.induct) auto

lemma str_split_words:
  "concat (str_split s) = filter (\<lambda>c. \<not> is_space c) s
   \<and> [] \<notin> set (str_split s)"
  using split_acc_concat [of "[]" s] split_acc_nonempty [of "[]" "[]" s]
  by (auto simp: str_split_def)

text \<open>
  Claim C6 does not hold as it is written: for a link without text and without image
  the label is not the href with its scheme and \<open>www.\<close> taken off. The code also drops
  one trailing slash of what is left, so the href \<open>https://www.example.com/\<close> is
  labelled \<open>[Naked URL: example.com]\<close>, not \<open>[Naked URL: example.com/]\<close>.
\<close>

theorem anchor_text_naked_url_counterexample:
  "extract_anchor_text
     \<lparr> link_text = [], link_img = None, link_href = Some ''https://www.example.com/'',
       link_tag = ''<a href=https://www.example.com/></a>'', link_head = Inl [] \<rparr>
   = ''[Naked URL: example.com]''
   \<and> spec_anchor_text
     \<lparr> link_text = [], link_img = None, link_href = Some ''https://www.example.com/'',
       link_tag = ''<a href=https://www.example.com/></a>'', link_head = Inl [] \<rparr>
   = ''[Naked URL: example.com/]''
   \<and> extract_anchor_text
     \<lparr> link_text = [], link_img = None, link_href = Some ''https://www.example.com/'',
       link_tag = ''<a href=https://www.example.com/></a>'', link_head = Inl [] \<rparr>
   \<noteq> spec_anchor_text
     \<lparr> link_text = [], link_img = None, link_href = Some ''https://www.example.com/'',
       link_tag = ''<a href=https://www.example.com/></a>'', link_head = Inl [] \<rparr>"
  by code_simp

text \<open>
  Claim C6, amended. The anchor text of a link is its trimmed text content when that is
  not empty. Otherwise, if the link contains an image, it is \<open>[Image: a]\<close> where \<open>a\<close> is
  the image's alt text with surrounding whitespace removed, when \<open>a\<close> is not empty, and
  \<open>[Image with missing alt text]\<close> when it is. Otherwise, for a non-empty href, it is
  \<open>[Naked URL: c]\<close> where \<open>c\<close> is the href with every occurrence of \<open>http://\<close>, then of
  \<open>https://\<close>, then of \<open>www.\<close> removed and one trailing slash dropped. Otherwise it is
  \<open>[Empty link]\<close>.
\<close>

theorem anchor_text_precedence:
  "(link_text l \<noteq> [] \<longrightarrow> extract_anchor_text l = link_text l)
   \<and> (link_text l = [] \<and> link_img l = Some img \<and> strip (get_attr img []) \<noteq> []
        \<longrightarrow> extract_anchor_text l = ''[Image: '' @ strip (get_attr img []) @ '']'')
   \<and> (link_text l = [] \<and> link_img l = Some img \<and> strip (get_attr img []) = []
        \<longrightarrow> extract_anchor_text l = ''[Image with missing alt text]'')
   \<and> (link_text l = [] \<and> link_img l = None \<and> link_href l = Some href \<and> href \<noteq> []
        \<longrightarrow> (\<exists>c. c = str_remove (str_remove (str_remove href ''http://'') ''https://'')
                        ''www.''
              \<and> extract_anchor_text l
                  = ''[Naked URL: '' @ (if suffix ''/'' c then butlast c else c) @ '']''))
   \<and> (link_text l = [] \<and> link_img l = None \<and> (link_href l = None \<or> link_href l = Some [])
        \<longrightarrow> extract_anchor_text l = ''[Empty link]'')"
  by (auto simp: extract_anchor_text_def get_attr_def Let_def endswith_suffix)



theorem anchor_text_precedence_witness:
  "extract_anchor_text
     \<lparr> link_text = ''Home'', link_img = None, link_href = Some ''/'', link_tag = [],
       link_head = Inl [] \<rparr> = ''Home''
   \<and> extract_anchor_text
     \<lparr> link_text = [], link_img = Some (Some '' logo ''), link_href = Some ''/'',
       link_tag = [], link_head = Inl [] \<rparr> = ''[Image: logo]''
   \<and> extract_anchor_text
     \<lparr> link_text = [], link_img = Some None, link_href = Some ''/'', link_tag = [],
       link_head = Inl [] \<rparr> = ''[Image with missing alt text]''
   \<and> extract_anchor_text
     \<lparr> link_text = [], link_img = None, link_href = Some ''http://www.a.test/b/'',
       link_tag = [], link_head = Inl [] \<rparr> = ''[Naked URL: a.test/b]''
   \<and> extract_anchor_text
     \<lparr> link_text = [], link_img = None, link_href = None, link_tag = [],
       link_head = Inl [] \<rparr> = ''[Empty link]''"
proof -
  have alt: "strip (get_attr (Some '' logo '') []) = ''logo''"
    by code_simp
  have noalt: "strip (get_attr None []) = []"
    by code_simp
  have href: "str_remove (str_remove (str_remove ''http://www.a.test/b/'' ''http://'')
                ''https://'') ''www.'' = ''a.test/b/''"
    by code_simp
  have sl: "suffix ''/'' ''a.test/b/''"
    by (simp add: suffix_def)
  note p = anchor_text_precedence
  have c1: "extract_anchor_text \<lparr> link_text = ''Home'', link_img = None,
        link_href = Some ''/'', link_tag = [], link_head = Inl [] \<rparr> = ''Home''"
    using p [THEN conjunct1, of "\<lparr> link_text = ''Home'', link_img = None,
        link_href = Some ''/'', link_tag = [], link_head = Inl [] \<rparr>"]
    by simp
  have c2: "extract_anchor_text \<lparr> link_text = [], link_img = Some (Some '' logo ''),
        link_href = Some ''/'', link_tag = [], link_head = Inl [] \<rparr> = ''[Image: logo]''"
    using p [THEN conjunct2, THEN conjunct1, of "\<lparr> link_text = [],
        link_img = Some (Some '' logo ''), link_href = Some ''/'', link_tag = [],
        link_head = Inl [] \<rparr>" "Some '' logo ''"]
    by (simp only: alt) simp
  have c3: "extract_anchor_text \<lparr> link_text = [], link_img = Some None,
        link_href = Some ''/'', link_tag = [], link_head = Inl [] \<rparr>
        = ''[Image with missing alt text]''"
    using p [THEN conjunct2, THEN conjunct2, THEN conjunct1, of "\<lparr> link_text = [],
        link_img = Some None, link_href = Some ''/'', link_tag = [],
        link_head = Inl [] \<rparr>" None]
    by (simp only: noalt) simp
  have c4: "extract_anchor_text \<lparr> link_text = [], link_img = None,
        link_href = Some ''http://www.a.test/b/'', link_tag = [], link_head = Inl [] \<rparr>
        = ''[Naked URL: a.test/b]''"
    using p [THEN conjunct2, THEN conjunct2, THEN conjunct2, THEN conjunct1,
        of "\<lparr> link_text = [], link_img = None,
        link_href = Some ''http://www.a.test/b/'', link_tag = [], link_head = Inl [] \<rparr>"
        "''http://www.a.test/b/''"] sl
    by (simp only: href) simp
  have c5: "extract_anchor_text \<lparr> link_text = [], link_img = None, link_href = None,
        link_tag = [], link_head = Inl [] \<rparr> = ''[Empty link]''"
    using p [THEN conjunct2, THEN conjunct2, THEN conjunct2, THEN conjunct2,
        of "\<lparr> link_text = [], link_img = None, link_href = None, link_tag = [],
        link_head = Inl [] \<rparr>"]
    by simp
  from c1 c2 c3 c4 c5 show ?thesis
    by (intro conjI)
qed

text \<open>
  Claim C7. The classifier answers with the first rule that matches, in this order:
  \<open>image\<close> when the text begins with \<open>[Image\<close>, \<open>naked_url\<close> when it begins with
  \<open>[Naked URL\<close>, \<open>empty\<close> when it begins with \<open>[Empty\<close>, \<open>generic\<close> when the lowercased
  text contains one of the four stock phrases, \<open>long_descriptive\<close> when it has more than
  eight whitespace-delimited words, \<open>short\<close> when it has at most two, and \<open>descriptive\<close>
  otherwise. The text \<open>Click here\<close> is \<open>generic\<close>.
\<close>

theorem classify_first_match:
  "classify_anchor_text text l =
     (if prefix ''[Image'' text then ''image''
      else if prefix ''[Naked URL'' text then ''naked_url''
      else if prefix ''[Empty'' text then ''empty''
      else if (\<exists>phrase \<in> {''click here'', ''read more'', ''learn more'', ''see more''}.
                 sublist phrase (lower text)) then ''generic''
      else if 8 < length (str_split text) then ''long_descriptive''
      else if length (str_split text) \<le> 2 then ''short''
      else ''descriptive'')
   \<and> classify_anchor_text ''Click here'' l = ''generic''"
proof -
  have "classify_anchor_text ''Click here'' l = ''generic''"
    by (simp add: classify_anchor_text_def Let_def) code_simp
  then show ?thesis
    by (simp add: classify_anchor_text_def Let_def startswith_prefix str_in_sublist)
qed

theorem classify_first_match_witness:
  "classify_anchor_text ''Click here'' None = ''generic''
   \<and> classify_anchor_text ''[Image: read more]'' None = ''image''
   \<and> classify_anchor_text ''Read more'' None = ''generic''
   \<and> classify_anchor_text ''Our pricing'' None = ''short''
   \<and> classify_anchor_text ''one two three four five six seven eight nine'' None
       = ''long_descriptive''
   \<and> classify_anchor_text ''how to contact us'' None = ''descriptive''"
proof -
  have rest: "classify_anchor_text ''[Image: read more]'' None = ''image''
    \<and> classify_anchor_text ''Read more'' None = ''generic''
    \<and> classify_anchor_text ''Our pricing'' None = ''short''
    \<and> classify_anchor_text ''one two three four five six seven eight nine'' None
        = ''long_descriptive''
    \<and> classify_anchor_text ''how to contact us'' None = ''descriptive''"
    by code_simp
  show ?thesis
    using classify_first_match [of "''Click here''" None, THEN conjunct2] rest
    by (rule conjI)
qed

section \<open>Extraction changes the entries of one page only\<close>

lemma other_pages_refl: "other_pages url s s"
  by (simp add: other_pages_def)

lemma other_pages_trans_keys:
  "other_pages url s s' \<Longrightarrow> other_pages url s' s'' \<Longrightarrow>
   fst ` set (anchor_text_analysis s) \<subseteq> fst ` set (anchor_text_analysis s'')"
  unfolding other_pages_def by (elim conjE) (rule subset_trans)

lemma other_pages_trans_items:
  "other_pages url s s' \<Longrightarrow> other_pages url s' s'' \<Longrightarrow>
   (\<forall>k. filter (\<lambda>i. it_source_page i \<noteq> url) (items_for (anchor_text_analysis s'') k)
      = filter (\<lambda>i. it_source_page i \<noteq> url) (items_for (anchor_text_analysis s) k))"
  unfolding other_pages_def by simp

lemma other_pages_trans_rest:
  "other_pages url s s' \<Longrightarrow> other_pages url s' s'' \<Longrightarrow>
   filter (\<lambda>a. a_page_url a \<noteq> url) (anchor_tags s'')
      = filter (\<lambda>a. a_page_url a \<noteq> url) (anchor_tags s)
   \<and> filter (\<lambda>r. rl_page_containing_link r \<noteq> url) (redirect_links s'')
      = filter (\<lambda>r. rl_page_containing_link r \<noteq> url) (redirect_links s)
   \<and> visited_urls s'' = visited_urls s \<and> max_pages s'' = max_pages s
   \<and> max_depth s'' = max_depth s \<and> domain s'' = domain s"
  unfolding other_pages_def by simp

lemma other_pages_trans:
  assumes "other_pages url s s'" and "other_pages url s' s''"
  shows "other_pages url s s''"
  using other_pages_trans_keys [OF assms] other_pages_trans_items [OF assms]
    other_pages_trans_rest [OF assms]
  by (simp add: other_pages_def)

lemma items_for_dd_append:
  "it_source_page v = url \<Longrightarrow>
   filter (\<lambda>i. it_source_page i \<noteq> url) (items_for (dd_append d k v) k')
     = filter (\<lambda>i. it_source_page i \<noteq> url) (items_for d k')"
  by (induction d k v rule: dd_append.induct) (auto simp: items_for_def)

lemma keys_dd_append: "fst ` set (dd_append d k v) = insert k (fst ` set d)"
  by (induction d k v rule: dd_append.induct) auto

lemma other_pages_store_redirect:
  "other_pages page_url s (store_redirect s page_url depth l t ri)"
  by (auto simp: other_pages_def store_redirect_def split: option.splits)

lemma other_pages_build_analysis:
  "other_pages page_url s (build_analysis s page_url l t is_int ri u)"
  by (auto simp: other_pages_def build_analysis_def items_for_dd_append keys_dd_append)

lemma other_pages_add_to_queue:
  "other_pages page_url s (add_to_queue s depth is_int ri u)"
  by (auto simp: other_pages_def add_to_queue_def Let_def)

lemma anchor_tags_blocks [simp]:
  "anchor_tags (store_redirect s page_url depth l t ri) = anchor_tags s"
  "anchor_tags (build_analysis s page_url l t is_int ri u) = anchor_tags s"
  "anchor_tags (add_to_queue s depth is_int ri u) = anchor_tags s"
  by (auto simp: store_redirect_def build_analysis_def add_to_queue_def Let_def
           split: option.splits)

lemma other_pages_blocks:
  "other_pages page_url s
     (add_to_queue (build_analysis (store_redirect s page_url depth l t ri)
        page_url l t is_int ri u) depth is_int ri u)"
  by (rule other_pages_trans [OF other_pages_trans
        [OF other_pages_store_redirect other_pages_build_analysis]
        other_pages_add_to_queue])

lemma record_link_other_pages:
  "record_link lib page_url depth method index l href u s pa = (s', pa')
     \<Longrightarrow> other_pages page_url s s' \<and> anchor_tags s' = anchor_tags s"
  unfolding record_link_def Let_def
  by (auto simp: other_pages_blocks)

lemma extract_loop_other_pages:
  "extract_loop lib page_url depth method index links s pa = (s', r)
     \<Longrightarrow> other_pages page_url s s' \<and> anchor_tags s' = anchor_tags s"
proof (induction links arbitrary: s pa index)
  case Nil
  then show ?case by (simp add: other_pages_refl)
next
  case (Cons l links)
  let ?href = "strip (get_attr (link_href l) [])"
  show ?case
  proof (cases "?href = [] \<or> startswith ?href ''javascript:'' \<or> startswith ?href ''tel:''")
    case True
    with Cons.prems
    have "extract_loop lib page_url depth method (index + 1) links s pa = (s', r)"
      by (simp add: Let_def)
    then show ?thesis by (rule Cons.IH)
  next
    case False
    show ?thesis
    proof (cases "urljoin lib page_url ?href")
      case (Inl e)
      with False Cons.prems have "s' = s"
        by (simp add: Let_def)
      then show ?thesis by (simp add: other_pages_refl)
    next
      case (Inr u)
      obtain s1 pa1 where r1:
        "record_link lib page_url depth method index l ?href u s pa = (s1, pa1)"
        by (cases "record_link lib page_url depth method index l ?href u s pa")
      with False Inr Cons.prems
      have "extract_loop lib page_url depth method (index + 1) links s1 pa1 = (s', r)"
        by (simp add: Let_def)
      then have "other_pages page_url s1 s' \<and> anchor_tags s' = anchor_tags s1"
        by (rule Cons.IH)
      moreover from r1 have "other_pages page_url s s1 \<and> anchor_tags s1 = anchor_tags s"
        by (rule record_link_other_pages)
      ultimately show ?thesis
        by (auto intro: other_pages_trans)
    qed
  qed
qed


lemma record_link_anchors:
  "record_link lib page_url depth method index l href u s pa = (s', pa')
     \<Longrightarrow> \<exists>a. pa' = pa @ [a] \<and> a_page_url a = page_url \<and> a_extraction_method a = method"
  unfolding record_link_def Let_def by auto

lemma extract_loop_anchors:
  "extract_loop lib page_url depth method index links s pa = (s', Inr pa')
     \<Longrightarrow> \<exists>new. pa' = pa @ new
           \<and> (\<forall>a \<in> set new. a_page_url a = page_url \<and> a_extraction_method a = method)"
proof (induction links arbitrary: s pa index)
  case Nil
  then show ?case by simp
next
  case (Cons l links)
  let ?href = "strip (get_attr (link_href l) [])"
  show ?case
  proof (cases "?href = [] \<or> startswith ?href ''javascript:'' \<or> startswith ?href ''tel:''")
    case True
    with Cons.prems
    have "extract_loop lib page_url depth method (index + 1) links s pa = (s', Inr pa')"
      by (simp add: Let_def)
    then show ?thesis by (rule Cons.IH)
  next
    case False
    show ?thesis
    proof (cases "urljoin lib page_url ?href")
      case (Inl e)
      with False Cons.prems show ?thesis
        by (simp add: Let_def)
    next
      case (Inr u)
      obtain s1 pa1 where r1:
        "record_link lib page_url depth method index l ?href u s pa = (s1, pa1)"
        by (cases "record_link lib page_url depth method index l ?href u s pa")
      with False Inr Cons.prems
      have "extract_loop lib page_url depth method (index + 1) links s1 pa1 = (s', Inr pa')"
        by (simp add: Let_def)
      then obtain new where new: "pa' = pa1 @ new"
        "\<forall>a \<in> set new. a_page_url a = page_url \<and> a_extraction_method a = method"
        using Cons.IH by blast
      from r1 obtain a where a: "pa1 = pa @ [a]" "a_page_url a = page_url"
        "a_extraction_method a = method"
        using record_link_anchors by blast
      have "pa' = pa @ (a # new)"
        using new(1) a(1) by simp
      moreover have "\<forall>x \<in> set (a # new). a_page_url x = page_url \<and> a_extraction_method x = method"
        using new(2) a(2,3) by simp
      ultimately show ?thesis by blast
    qed
  qed
qed

lemma extract_anchor_data_result:
  assumes "extract_anchor_data lib s links page_url depth method = (s', r)"
  shows "other_pages page_url s s'"
    and "\<exists>new. anchor_tags s' = anchor_tags s @ new
           \<and> (\<forall>a \<in> set new. a_page_url a = page_url \<and> a_extraction_method a = method)"
    and "\<And>pa. r = Inr pa \<Longrightarrow> anchor_tags s' = anchor_tags s @ pa"
proof -
  obtain s1 r1 where l: "extract_loop lib page_url depth method 0 links s [] = (s1, r1)"
    by (cases "extract_loop lib page_url depth method 0 links s []")
  then have op: "other_pages page_url s s1" and at: "anchor_tags s1 = anchor_tags s"
    using extract_loop_other_pages by blast+
  show "other_pages page_url s s'"
  proof (cases r1)
    case (Inl e)
    with l assms have "s' = s1" by (simp add: extract_anchor_data_def)
    with op show ?thesis by simp
  next
    case (Inr pa)
    with l assms have s': "s' = s1\<lparr> anchor_tags := anchor_tags s1 @ pa \<rparr>"
      by (auto simp: extract_anchor_data_def)
    from l Inr have "\<forall>a \<in> set pa. a_page_url a = page_url"
      using extract_loop_anchors [of lib page_url depth "method" 0 links s "[]" s1 pa] by auto
    then have "other_pages page_url s1 s'"
      by (simp add: s' other_pages_def)
    with op show ?thesis by (rule other_pages_trans)
  qed
  show "\<exists>new. anchor_tags s' = anchor_tags s @ new
           \<and> (\<forall>a \<in> set new. a_page_url a = page_url \<and> a_extraction_method a = method)"
  proof (cases r1)
    case (Inl e)
    with l assms have "s' = s1" by (simp add: extract_anchor_data_def)
    with at show ?thesis by simp
  next
    case (Inr pa)
    with l assms have s': "s' = s1\<lparr> anchor_tags := anchor_tags s1 @ pa \<rparr>"
      by (auto simp: extract_anchor_data_def)
    from l Inr have "\<forall>a \<in> set pa. a_page_url a = page_url \<and> a_extraction_method a = method"
      using extract_loop_anchors [of lib page_url depth "method" 0 links s "[]" s1 pa] by auto
    with s' at show ?thesis by simp
  qed
  show "\<And>pa. r = Inr pa \<Longrightarrow> anchor_tags s' = anchor_tags s @ pa"
    using l assms at by (cases r1) (auto simp: extract_anchor_data_def)
qed

lemma items_for_purge:
  "items_for (map (\<lambda>(k, items). (k, filter P items)) d) k' = filter P (items_for d k')"
  by (induction d) (auto simp: items_for_def)

lemma keys_purge: "fst ` (\<lambda>(k, items). (k, f items)) ` A = fst ` A"
  by (simp add: image_image case_prod_unfold)

lemma remove_initial_anchors_other_pages: "other_pages url s (remove_initial_anchors s url)"
  by (simp add: other_pages_def remove_initial_anchors_def items_for_purge keys_purge)

lemma remove_initial_anchors_none:
  "\<forall>a \<in> set (anchor_tags (remove_initial_anchors s url)). a_page_url a \<noteq> url"
  "\<forall>r \<in> set (redirect_links (remove_initial_anchors s url)). rl_page_containing_link r \<noteq> url"
  "\<forall>i \<in> set (items_for (anchor_text_analysis (remove_initial_anchors s url)) k).
      it_source_page i \<noteq> url"
  by (simp_all add: remove_initial_anchors_def items_for_purge)

lemma selenium_result:
  assumes "extract_anchor_data_selenium lib s url depth = (s', r)"
  shows "other_pages url s s'"
    and "\<exists>new. anchor_tags s' = anchor_tags s @ new
           \<and> (\<forall>a \<in> set new. a_page_url a = url \<and> a_extraction_method a = ''selenium'')"
proof -
  show "other_pages url s s'"
  proof (cases "driver_links lib url")
    case None
    with assms show ?thesis
      by (simp add: extract_anchor_data_selenium_def other_pages_refl)
  next
    case (Some links)
    obtain s1 r1 where e: "extract_anchor_data lib s links url depth ''selenium'' = (s1, r1)"
      by (cases "extract_anchor_data lib s links url depth ''selenium''")
    with Some assms have "s' = s1"
      by (cases r1) (simp_all add: extract_anchor_data_selenium_def)
    with extract_anchor_data_result(1) [OF e] show ?thesis by simp
  qed
  show "\<exists>new. anchor_tags s' = anchor_tags s @ new
           \<and> (\<forall>a \<in> set new. a_page_url a = url \<and> a_extraction_method a = ''selenium'')"
  proof (cases "driver_links lib url")
    case None
    with assms show ?thesis
      by (simp add: extract_anchor_data_selenium_def)
  next
    case (Some links)
    obtain s1 r1 where e: "extract_anchor_data lib s links url depth ''selenium'' = (s1, r1)"
      by (cases "extract_anchor_data lib s links url depth ''selenium''")
    with Some assms have "s' = s1"
      by (cases r1) (simp_all add: extract_anchor_data_selenium_def)
    with extract_anchor_data_result(2) [OF e] show ?thesis by simp
  qed
qed


lemma crawl_page_cases:
  assumes "crawl_page lib s url depth = (s', ok, m)"
  obtains
    (failed) "s' = s" "\<not> ok"
  | (extract_error) response e where
      "session_get lib url = Inr response"
      "extract_anchor_data lib s (page_links response) url depth ''requests'' = (s', Inl e)"
      "\<not> ok"
  | (requests) response anchors where
      "session_get lib url = Inr response"
      "extract_anchor_data lib s (page_links response) url depth ''requests''
         = (s', Inr anchors)"
      "\<not> should_use_selenium lib s' url (page_text response) (length anchors)"
      "ok" "m = Requests_Found (length anchors)"
  | (selenium) response s1 anchors sel where
      "session_get lib url = Inr response"
      "extract_anchor_data lib s (page_links response) url depth ''requests''
         = (s1, Inr anchors)"
      "should_use_selenium lib s1 url (page_text response) (length anchors)"
      "extract_anchor_data_selenium lib (remove_initial_anchors s1 url) url depth = (s', sel)"
      "ok" "m = Selenium_Found (length sel)"
proof (cases "session_get lib url")
  case (Inl e)
  with assms have "s' = s" "\<not> ok"
    by (simp_all add: crawl_page_def)
  then show ?thesis by (rule failed)
next
  case (Inr response)
  show ?thesis
  proof (cases "str_in ''text/html'' (lower (get_attr (page_content_type response) []))")
    case False
    with Inr assms have "s' = s" "\<not> ok"
      by (simp_all add: crawl_page_def Let_def)
    then show ?thesis by (rule failed)
  next
    case True
    obtain s1 r1 where e:
      "extract_anchor_data lib s (page_links response) url depth ''requests'' = (s1, r1)"
      by (cases "extract_anchor_data lib s (page_links response) url depth ''requests''")
    show ?thesis
    proof (cases r1)
      case (Inl msg)
      with Inr True e assms have "s' = s1" "\<not> ok"
        by (simp_all add: crawl_page_def Let_def)
      with e Inl Inr show ?thesis
        by (auto intro: extract_error)
    next
      case r: (Inr anchors)
      show ?thesis
      proof (cases "should_use_selenium lib s1 url (page_text response) (length anchors)")
        case False
        with Inr True e r assms have "s' = s1" "ok" "m = Requests_Found (length anchors)"
          by (simp_all add: crawl_page_def Let_def)
        with e r Inr False show ?thesis
          by (auto intro: requests)
      next
        case sel: True
        obtain s2 sa where x:
          "extract_anchor_data_selenium lib (remove_initial_anchors s1 url) url depth = (s2, sa)"
          by (cases "extract_anchor_data_selenium lib (remove_initial_anchors s1 url) url depth")
        with Inr True e r sel assms have "s' = s2" "ok" "m = Selenium_Found (length sa)"
          by (simp_all add: crawl_page_def Let_def)
        with e r Inr sel x show ?thesis
          by (auto intro: selenium)
      qed
    qed
  qed
qed

lemma crawl_page_other_pages:
  assumes "crawl_page lib s url depth = (s', ok, m)"
  shows "other_pages url s s'"
  using assms
proof (cases rule: crawl_page_cases)
  case failed
  then show ?thesis by (simp add: other_pages_refl)
next
  case (extract_error response e)
  then show ?thesis by (simp add: extract_anchor_data_result(1))
next
  case (requests response anchors)
  then show ?thesis by (simp add: extract_anchor_data_result(1))
next
  case (selenium response s1 anchors sel)
  have "other_pages url s s1"
    using selenium(2) by (rule extract_anchor_data_result(1))
  moreover have "other_pages url s1 (remove_initial_anchors s1 url)"
    by (rule remove_initial_anchors_other_pages)
  moreover have "other_pages url (remove_initial_anchors s1 url) s'"
    using selenium(4) by (rule selenium_result(1))
  ultimately show ?thesis
    by (blast intro: other_pages_trans)
qed

lemma crawl_page_selenium_only:
  assumes "crawl_page lib s url depth = (s', ok, Selenium_Found n)"
  shows "\<forall>a \<in> set (anchor_tags s'). a_page_url a = url \<longrightarrow> a_extraction_method a = ''selenium''"
  using assms
proof (cases rule: crawl_page_cases)
  case failed
  with assms show ?thesis
    by (auto simp: crawl_page_def Let_def split: sum.splits prod.splits if_splits)
next
  case (extract_error response e)
  with assms show ?thesis
    by (auto simp: crawl_page_def Let_def split: sum.splits prod.splits if_splits)
next
  case (requests response anchors)
  then show ?thesis by simp
next
  case (selenium response s1 anchors sel)
  from selenium_result(2) [OF selenium(4)] obtain new where
    new: "anchor_tags s' = anchor_tags (remove_initial_anchors s1 url) @ new"
      "\<forall>a \<in> set new. a_page_url a = url \<and> a_extraction_method a = ''selenium''"
    by blast
  show ?thesis
    using new remove_initial_anchors_none(1) [of s1 url] by auto
qed


text \<open>
  Claim C3. When \<open>crawl_page\<close> falls back to the browser for a page, the three removal
  statements drop from the anchor list, from the redirect list and from every list of
  the anchor text analysis exactly the entries of that page and keep all others as they
  are and in their order. When \<open>crawl_page\<close> has returned through the browser branch, no
  anchor entry of the page carries the method \<open>requests\<close>, and the entries of all other
  pages are the ones that were there before the call.
\<close>

theorem rendered_fallback_purge:
  "anchor_tags (remove_initial_anchors s0 url)
      = filter (\<lambda>a. a_page_url a \<noteq> url) (anchor_tags s0)
   \<and> redirect_links (remove_initial_anchors s0 url)
      = filter (\<lambda>r. rl_page_containing_link r \<noteq> url) (redirect_links s0)
   \<and> map fst (anchor_text_analysis (remove_initial_anchors s0 url))
      = map fst (anchor_text_analysis s0)
   \<and> (\<forall>k. items_for (anchor_text_analysis (remove_initial_anchors s0 url)) k
          = filter (\<lambda>i. it_source_page i \<noteq> url) (items_for (anchor_text_analysis s0) k))
   \<and> (crawl_page lib s url depth = (s', ok, Selenium_Found n) \<longrightarrow>
        filter (\<lambda>a. a_page_url a = url \<and> a_extraction_method a = ''requests'')
          (anchor_tags s') = []
        \<and> filter (\<lambda>a. a_page_url a \<noteq> url) (anchor_tags s')
          = filter (\<lambda>a. a_page_url a \<noteq> url) (anchor_tags s)
        \<and> filter (\<lambda>r. rl_page_containing_link r \<noteq> url) (redirect_links s')
          = filter (\<lambda>r. rl_page_containing_link r \<noteq> url) (redirect_links s)
        \<and> (\<forall>k. filter (\<lambda>i. it_source_page i \<noteq> url) (items_for (anchor_text_analysis s') k)
              = filter (\<lambda>i. it_source_page i \<noteq> url)
                  (items_for (anchor_text_analysis s) k)))"
proof -
  have purge: "anchor_tags (remove_initial_anchors s0 url)
      = filter (\<lambda>a. a_page_url a \<noteq> url) (anchor_tags s0)
   \<and> redirect_links (remove_initial_anchors s0 url)
      = filter (\<lambda>r. rl_page_containing_link r \<noteq> url) (redirect_links s0)
   \<and> map fst (anchor_text_analysis (remove_initial_anchors s0 url))
      = map fst (anchor_text_analysis s0)
   \<and> (\<forall>k. items_for (anchor_text_analysis (remove_initial_anchors s0 url)) k
          = filter (\<lambda>i. it_source_page i \<noteq> url) (items_for (anchor_text_analysis s0) k))"
    by (auto simp: remove_initial_anchors_def items_for_purge)
  have after: "filter (\<lambda>a. a_page_url a = url \<and> a_extraction_method a = ''requests'')
          (anchor_tags s') = []
        \<and> filter (\<lambda>a. a_page_url a \<noteq> url) (anchor_tags s')
          = filter (\<lambda>a. a_page_url a \<noteq> url) (anchor_tags s)
        \<and> filter (\<lambda>r. rl_page_containing_link r \<noteq> url) (redirect_links s')
          = filter (\<lambda>r. rl_page_containing_link r \<noteq> url) (redirect_links s)
        \<and> (\<forall>k. filter (\<lambda>i. it_source_page i \<noteq> url) (items_for (anchor_text_analysis s') k)
              = filter (\<lambda>i. it_source_page i \<noteq> url)
                  (items_for (anchor_text_analysis s) k))"
    if run: "crawl_page lib s url depth = (s', ok, Selenium_Found n)"
  proof -
    have "\<forall>a \<in> set (anchor_tags s'). a_page_url a = url \<longrightarrow> a_extraction_method a = ''selenium''"
      using run by (rule crawl_page_selenium_only)
    then have "filter (\<lambda>a. a_page_url a = url \<and> a_extraction_method a = ''requests'')
          (anchor_tags s') = []"
      by (auto simp: filter_empty_conv)
    moreover have "other_pages url s s'"
      using run by (rule crawl_page_other_pages)
    ultimately show ?thesis
      by (simp add: other_pages_def)
  qed
  from purge after show ?thesis
    by blast
qed


lemma loop_body_cases:
  assumes "loop_body lib (s, c) = Some (s', c')"
  obtains
    (discard) url depth rest where
      "urls_to_visit s = (url, depth) # rest" "c < max_pages s"
      "url \<in> visited_urls s \<or> depth > max_depth s"
      "s' = s\<lparr> urls_to_visit := rest \<rparr>" "c' = c"
  | (dispatch) url depth rest ok m where
      "urls_to_visit s = (url, depth) # rest" "c < max_pages s"
      "url \<notin> visited_urls s" "\<not> depth > max_depth s"
      "crawl_page lib
         (s\<lparr> urls_to_visit := rest, visited_urls := insert url (visited_urls s) \<rparr>)
         url depth = (s', ok, m)"
      "c' = (if ok then c + 1 else c)"
proof (cases "urls_to_visit s")
  case Nil
  with assms show ?thesis by (simp add: loop_body_def)
next
  case (Cons e rest)
  obtain url depth where e: "e = (url, depth)" by (cases e)
  from assms Cons e have lt: "c < max_pages s"
    by (simp add: loop_body_def split: if_splits)
  show ?thesis
  proof (cases "url \<in> visited_urls s \<or> depth > max_depth s")
    case True
    with assms Cons e lt have "s' = s\<lparr> urls_to_visit := rest \<rparr>" "c' = c"
      by (auto simp: loop_body_def Let_def)
    with Cons e lt True show ?thesis
      by (auto intro: discard)
  next
    case False
    obtain s2 ok m where cp: "crawl_page lib
         (s\<lparr> urls_to_visit := rest, visited_urls := insert url (visited_urls s) \<rparr>)
         url depth = (s2, ok, m)"
      by (metis prod_cases3)
    with assms Cons e lt False have "s' = s2" "c' = (if ok then c + 1 else c)"
      by (auto simp: loop_body_def Let_def split: if_splits)
    with Cons e lt False cp show ?thesis
      by (auto intro: dispatch)
  qed
qed

lemma loop_body_keys:
  assumes "loop_body lib (s, c) = Some (s', c')"
  shows "fst ` set (anchor_text_analysis s) \<subseteq> fst ` set (anchor_text_analysis s')"
  using assms
proof (cases rule: loop_body_cases)
  case (discard url depth rest)
  then show ?thesis by simp
next
  case (dispatch url depth rest ok m)
  from crawl_page_other_pages [OF dispatch(5)] show ?thesis
    by (simp add: other_pages_def)
qed

lemma iterations_keys:
  "fst ` set (anchor_text_analysis (fst st))
     \<subseteq> fst ` set (anchor_text_analysis (fst (iterations n lib st)))"
proof (induction n arbitrary: st)
  case 0
  show ?case by simp
next
  case (Suc n)
  show ?case
  proof (cases "loop_body lib st")
    case None
    then show ?thesis by simp
  next
    case (Some st')
    obtain s c where st: "st = (s, c)" by (cases st)
    obtain s' c' where st': "st' = (s', c')" by (cases st')
    from Some st st' have "fst ` set (anchor_text_analysis s) \<subseteq> fst ` set (anchor_text_analysis s')"
      using loop_body_keys by blast
    moreover have "fst ` set (anchor_text_analysis (fst st'))
       \<subseteq> fst ` set (anchor_text_analysis (fst (iterations n lib st')))"
      by (rule Suc.IH)
    ultimately show ?thesis
      using Some st st' by auto
  qed
qed

lemma while_loop_iterations:
  "while_loop n lib st =
     (case loop_body lib (iterations n lib st) of
        None \<Rightarrow> Some (iterations n lib st) | Some st' \<Rightarrow> None)"
  by (induction n arbitrary: st) (auto split: option.splits)


theorem rendered_fallback_purge_witness:
  "snd (crawl_page ex_lib
          ((ex_analyzer 100 3 5)\<lparr> urls_to_visit := [],
                                   visited_urls := {''https://a.test''} \<rparr>)
          ''https://a.test'' 0) = (True, Selenium_Found 1)
   \<and> filter (\<lambda>a. a_page_url a = ''https://a.test'' \<and> a_extraction_method a = ''requests'')
        (anchor_tags (fst (crawl_page ex_lib
          ((ex_analyzer 100 3 5)\<lparr> urls_to_visit := [],
                                   visited_urls := {''https://a.test''} \<rparr>)
          ''https://a.test'' 0))) = []
   \<and> map a_extraction_method
        (anchor_tags (fst (crawl_page ex_lib
          ((ex_analyzer 100 3 5)\<lparr> urls_to_visit := [],
                                   visited_urls := {''https://a.test''} \<rparr>)
          ''https://a.test'' 0))) = [''selenium'']"
proof -
  let ?s = "(ex_analyzer 100 3 5)\<lparr> urls_to_visit := [],
                                     visited_urls := {''https://a.test''} \<rparr>"
  let ?r = "crawl_page ex_lib ?s ''https://a.test'' 0"
  have out: "snd ?r = (True, Selenium_Found 1)"
    by code_simp
  have methods: "map a_extraction_method (anchor_tags (fst ?r)) = [''selenium'']"
    by code_simp
  from out have run: "?r = (fst ?r, True, Selenium_Found 1)"
    by (simp add: prod_eq_iff)
  from rendered_fallback_purge [where lib = ex_lib and s = ?s and url = "''https://a.test''"
      and depth = 0 and s' = "fst ?r" and ok = True and n = 1] run
  have "filter (\<lambda>a. a_page_url a = ''https://a.test'' \<and> a_extraction_method a = ''requests'')
        (anchor_tags (fst ?r)) = []"
    by blast
  with out methods show ?thesis
    by (intro conjI)
qed

text \<open>
  Claim C5. When the metadata request of \<open>check_redirect_chain\<close> raises, the function
  returns a value with hop count 0, the URL itself as final URL, the single status
  \<open>ERROR\<close> and the chain \<open>[url]\<close>. An internal link whose request failed is then recorded
  as it is for a link that does not redirect: nothing is added to the redirect list, its
  entry in the anchor text analysis is filed under the link's own URL with the redirect
  flag off, and its anchor entry carries that value.
\<close>

theorem resolver_failure_recovered:
  "check_redirect_chain (Inl e) url
     = \<lparr> ri_is_redirect = False, ri_original_url = url, ri_final_url = url,
         ri_redirect_count = 0, ri_status_codes = [ERROR], ri_redirect_chain = [url],
         ri_error = Some e \<rparr>
   \<and> (link_head l = Inl e \<and> is_valid_internal_url lib s u
        \<and> record_link lib page_url depth meth index l href u s pa = (s', pa')
      \<longrightarrow> redirect_links s' = redirect_links s
        \<and> anchor_text_analysis s'
            = dd_append (anchor_text_analysis s) u
                \<lparr> it_text = extract_anchor_text l,
                  it_text_type = classify_anchor_text (extract_anchor_text l) (Some l),
                  it_source_page = page_url, it_is_redirect = False \<rparr>
        \<and> map a_absolute_url pa' = map a_absolute_url pa @ [u]
        \<and> map a_redirect_info pa' = map a_redirect_info pa @ [Some (check_redirect_chain (Inl e) u)])"
  by (auto simp: check_redirect_chain_def record_link_def Let_def store_redirect_def
        build_analysis_def add_to_queue_def final_url_of_def)

theorem resolver_failure_recovered_witness:
  "link_head ex_link_c = Inl ''timed out''
   \<and> is_valid_internal_url ex_lib (ex_analyzer 100 3 5) ''https://a.test/c''
   \<and> redirect_links (fst (record_link ex_lib ''https://a.test'' 0 ''selenium'' 0 ex_link_c
        ''https://a.test/c'' ''https://a.test/c'' (ex_analyzer 100 3 5) [])) = []
   \<and> anchor_text_analysis (fst (record_link ex_lib ''https://a.test'' 0 ''selenium'' 0
        ex_link_c ''https://a.test/c'' ''https://a.test/c'' (ex_analyzer 100 3 5) []))
      = [(''https://a.test/c'',
          [\<lparr> it_text = ''Contact'', it_text_type = ''short'',
              it_source_page = ''https://a.test'', it_is_redirect = False \<rparr>])]"
proof -
  let ?s = "ex_analyzer 100 3 5"
  let ?r = "record_link ex_lib ''https://a.test'' 0 ''selenium'' 0 ex_link_c
        ''https://a.test/c'' ''https://a.test/c'' ?s []"
  have h: "link_head ex_link_c = Inl ''timed out''"
    by (simp add: ex_link_c_def)
  have i: "is_valid_internal_url ex_lib ?s ''https://a.test/c''"
    by code_simp
  have t: "extract_anchor_text ex_link_c = ''Contact''"
    "classify_anchor_text ''Contact'' (Some ex_link_c) = ''short''"
    by code_simp+
  have r: "?r = (fst ?r, snd ?r)"
    by simp
  from resolver_failure_recovered [where l = ex_link_c and e = "''timed out''" and lib = ex_lib
      and s = ?s and u = "''https://a.test/c''" and page_url = "''https://a.test''"
      and depth = 0 and meth = "''selenium''" and index = 0
      and href = "''https://a.test/c''" and pa = "[]" and s' = "fst ?r" and pa' = "snd ?r"]
    h i r
  have "redirect_links (fst ?r) = redirect_links ?s
        \<and> anchor_text_analysis (fst ?r)
            = dd_append (anchor_text_analysis ?s) ''https://a.test/c''
                \<lparr> it_text = extract_anchor_text ex_link_c,
                  it_text_type = classify_anchor_text (extract_anchor_text ex_link_c)
                    (Some ex_link_c),
                  it_source_page = ''https://a.test'', it_is_redirect = False \<rparr>"
    by blast
  then have "redirect_links (fst ?r) = []"
    and "anchor_text_analysis (fst ?r)
      = [(''https://a.test/c'',
          [\<lparr> it_text = ''Contact'', it_text_type = ''short'',
              it_source_page = ''https://a.test'', it_is_redirect = False \<rparr>])]"
    by (simp_all add: t ex_analyzer_def)
  with h i show ?thesis
    by (intro conjI)
qed


lemma start_analysis_keys:
  assumes "start_analysis n lib s = Some s'"
  shows "fst ` set (anchor_text_analysis s) \<subseteq> fst ` set (anchor_text_analysis s')"
proof -
  from assms obtain s1 c1 where w: "while_loop n lib (s, 0) = Some (s1, c1)"
    and s': "s' = s1\<lparr> crawl_complete := True \<rparr>"
    by (auto simp: start_analysis_def split: option.splits)
  from w have "iterations n lib (s, 0) = (s1, c1)"
    by (simp add: while_loop_iterations split: option.splits)
  with iterations_keys [of "(s, 0)" n lib] s' show ?thesis
    by simp
qed

text \<open>
  Claim C10. The keys of the anchor text analysis only grow during a crawl: the removal
  before the browser pass empties lists and keeps every key, and a finished crawl has
  all keys that the analyzer had when it started. On the example site, where the seed
  page falls back to the browser, the finished crawl lists three target URLs although two
  of them, \<open>/b\<close> and \<open>/new\<close>, have no entry left.
\<close>

theorem aggregate_keys_only_grow:
  "map fst (anchor_text_analysis (remove_initial_anchors s url))
      = map fst (anchor_text_analysis s)
   \<and> (start_analysis n lib s = Some s'
        \<longrightarrow> set (map fst (anchor_text_analysis s)) \<subseteq> set (map fst (anchor_text_analysis s')))
   \<and> get_all_urls (start_analysis 10 ex_lib (ex_analyzer 100 3 5))
        = Inr ([''https://a.test/b'', ''https://a.test/c'', ''https://a.test/new''], 3)
   \<and> map_option unique_urls_with_anchors (start_analysis 10 ex_lib (ex_analyzer 100 3 5))
        = Some 3
   \<and> map_option
        (\<lambda>a. map (\<lambda>k. length (items_for (anchor_text_analysis a) k))
               [''https://a.test/b'', ''https://a.test/c'', ''https://a.test/new''])
        (start_analysis 10 ex_lib (ex_analyzer 100 3 5))
        = Some [0, 1, 0]"
proof -
  have keep: "map fst (anchor_text_analysis (remove_initial_anchors s url))
      = map fst (anchor_text_analysis s)"
    by (auto simp: remove_initial_anchors_def)
  have grow: "set (map fst (anchor_text_analysis s)) \<subseteq> set (map fst (anchor_text_analysis s'))"
    if "start_analysis n lib s = Some s'"
    using start_analysis_keys [OF that] by simp
  have q: "get_all_urls (start_analysis 10 ex_lib (ex_analyzer 100 3 5))
        = Inr ([''https://a.test/b'', ''https://a.test/c'', ''https://a.test/new''], 3)"
    by code_simp
  have u: "map_option unique_urls_with_anchors (start_analysis 10 ex_lib (ex_analyzer 100 3 5))
        = Some 3"
    by code_simp
  have e: "map_option
        (\<lambda>a. map (\<lambda>k. length (items_for (anchor_text_analysis a) k))
               [''https://a.test/b'', ''https://a.test/c'', ''https://a.test/new''])
        (start_analysis 10 ex_lib (ex_analyzer 100 3 5))
        = Some [0, 1, 0]"
    by code_simp
  from keep grow q u e show ?thesis
    by blast
qed

theorem aggregate_keys_only_grow_witness:
  "map_option crawl_complete (start_analysis 10 ex_lib (ex_analyzer 100 3 5)) = Some True
   \<and> get_all_urls (start_analysis 10 ex_lib (ex_analyzer 100 3 5))
        = Inr ([''https://a.test/b'', ''https://a.test/c'', ''https://a.test/new''], 3)"
proof -
  have "map_option crawl_complete (start_analysis 10 ex_lib (ex_analyzer 100 3 5)) = Some True"
    by code_simp
  with aggregate_keys_only_grow [THEN conjunct2, THEN conjunct2, THEN conjunct1]
  show ?thesis
    by (rule conjI [rotated])
qed

lemma crawl_page_success:
  "crawl_page lib s url depth = (s', ok, m)
     \<Longrightarrow> ok = (case m of Requests_Found k \<Rightarrow> True | Selenium_Found k \<Rightarrow> True | _ \<Rightarrow> False)"
  by (auto simp: crawl_page_def Let_def split: sum.splits prod.splits if_splits)


text \<open>
  Claim C1 does not hold as it is written: the loop adds one to \<open>crawled_count\<close> only
  when \<open>crawl_page\<close> reports success. On the example site the second pass of the loop
  takes \<open>/b\<close> from the queue, which is not yet visited and at depth 1; the page is a PDF
  document, \<open>crawl_page\<close> skips it, and the counter is 1 before the pass and 1 after it,
  while \<open>/b\<close> is now in the visited set.
\<close>

theorem skipped_page_not_counted_counterexample:
  "urls_to_visit (fst (iterations 1 ex_lib (ex_analyzer 100 3 0, 0)))
      = [(''https://a.test/b'', 1), (''https://a.test/new'', 1)]
   \<and> ''https://a.test/b'' \<notin> visited_urls (fst (iterations 1 ex_lib (ex_analyzer 100 3 0, 0)))
   \<and> snd (iterations 1 ex_lib (ex_analyzer 100 3 0, 0)) = 1
   \<and> snd (crawl_page ex_lib (fst (iterations 1 ex_lib (ex_analyzer 100 3 0, 0)))
        ''https://a.test/b'' 1) = (False, Non_HTML_content ''application/pdf'')
   \<and> snd (iterations 2 ex_lib (ex_analyzer 100 3 0, 0)) = 1
   \<and> ''https://a.test/b'' \<in> visited_urls (fst (iterations 2 ex_lib (ex_analyzer 100 3 0, 0)))"
  by code_simp

text \<open>
  Claim C1, amended. For every entry taken from the queue that is not discarded, the
  loop marks the URL visited whatever \<open>crawl_page\<close> returns, and adds one to the counter
  exactly when \<open>crawl_page\<close> reports success, that is when it returns one of its two
  \<open>Found\<close> messages. A page whose content type does not contain \<open>text/html\<close> is reported
  as a failure and leaves the counter as it was.
\<close>

theorem counter_counts_successes:
  "(urls_to_visit s = (url, depth) # rest \<and> c < max_pages s
      \<and> url \<notin> visited_urls s \<and> depth \<le> max_depth s
     \<longrightarrow> (\<exists>s' ok m.
           crawl_page lib
             (s\<lparr> urls_to_visit := rest, visited_urls := insert url (visited_urls s) \<rparr>)
             url depth = (s', ok, m)
           \<and> loop_body lib (s, c) = Some (s', if ok then c + 1 else c)
           \<and> url \<in> visited_urls s'
           \<and> ok = (case m of Requests_Found k \<Rightarrow> True | Selenium_Found k \<Rightarrow> True
                     | _ \<Rightarrow> False)))
   \<and> (session_get lib url = Inr response
      \<and> \<not> str_in ''text/html'' (lower (get_attr (page_content_type response) []))
     \<longrightarrow> crawl_page lib s url depth
           = (s, False, Non_HTML_content (lower (get_attr (page_content_type response) []))))"
proof -
  have step: "\<exists>s' ok m.
           crawl_page lib
             (s\<lparr> urls_to_visit := rest, visited_urls := insert url (visited_urls s) \<rparr>)
             url depth = (s', ok, m)
           \<and> loop_body lib (s, c) = Some (s', if ok then c + 1 else c)
           \<and> url \<in> visited_urls s'
           \<and> ok = (case m of Requests_Found k \<Rightarrow> True | Selenium_Found k \<Rightarrow> True
                     | _ \<Rightarrow> False)"
    if h: "urls_to_visit s = (url, depth) # rest" "c < max_pages s"
      "url \<notin> visited_urls s" "depth \<le> max_depth s"
  proof -
    let ?s = "s\<lparr> urls_to_visit := rest, visited_urls := insert url (visited_urls s) \<rparr>"
    obtain s' ok m where cp: "crawl_page lib ?s url depth = (s', ok, m)"
      by (metis prod_cases3)
    from h cp have lb: "loop_body lib (s, c) = Some (s', if ok then c + 1 else c)"
      by (simp add: loop_body_def Let_def)
    from crawl_page_other_pages [OF cp] have "visited_urls s' = visited_urls ?s"
      by (simp add: other_pages_def)
    then have v: "url \<in> visited_urls s'"
      by simp
    from cp lb v crawl_page_success [OF cp] show ?thesis
      by blast
  qed
  have skip: "crawl_page lib s url depth
           = (s, False, Non_HTML_content (lower (get_attr (page_content_type response) [])))"
    if "session_get lib url = Inr response"
      "\<not> str_in ''text/html'' (lower (get_attr (page_content_type response) []))"
    using that by (simp add: crawl_page_def Let_def)
  from step skip show ?thesis
    by blast
qed

theorem counter_counts_successes_witness:
  "urls_to_visit (ex_analyzer 100 3 0) = (''https://a.test'', 0) # []
   \<and> (0::int) < max_pages (ex_analyzer 100 3 0)
   \<and> ''https://a.test'' \<notin> visited_urls (ex_analyzer 100 3 0)
   \<and> (0::int) \<le> max_depth (ex_analyzer 100 3 0)
   \<and> (\<exists>s' ok m. loop_body ex_lib (ex_analyzer 100 3 0, 0)
            = Some (s', if ok then 0 + 1 else 0)
          \<and> ''https://a.test'' \<in> visited_urls s')"
proof -
  have h: "urls_to_visit (ex_analyzer 100 3 0) = (''https://a.test'', 0) # []"
    "(0::int) < max_pages (ex_analyzer 100 3 0)"
    "''https://a.test'' \<notin> visited_urls (ex_analyzer 100 3 0)"
    "(0::int) \<le> max_depth (ex_analyzer 100 3 0)"
    by (simp_all add: ex_analyzer_def)
  from counter_counts_successes [where s = "ex_analyzer 100 3 0"
      and url = "''https://a.test''" and depth = 0 and rest = "[]" and c = 0
      and lib = ex_lib, THEN conjunct1] h
  have "\<exists>s' ok m. loop_body ex_lib (ex_analyzer 100 3 0, 0)
            = Some (s', if ok then 0 + 1 else 0)
          \<and> ''https://a.test'' \<in> visited_urls s'"
    by blast
  with h show ?thesis
    by (intro conjI)
qed


lemma frontier_ok_cong:
  "urls_to_visit s' = urls_to_visit s \<Longrightarrow> max_pages s' = max_pages s
     \<Longrightarrow> max_depth s' = max_depth s \<Longrightarrow> frontier_ok s' = frontier_ok s"
  by (simp add: frontier_ok_def)

lemma frontier_ok_add_to_queue:
  "0 \<le> depth \<Longrightarrow> frontier_ok s \<Longrightarrow> frontier_ok (add_to_queue s depth is_int ri u)"
  by (auto simp: frontier_ok_def add_to_queue_def Let_def)

lemma frontier_ok_record_link:
  assumes "0 \<le> depth" "frontier_ok s"
    "record_link lib page_url depth meth index l href u s pa = (s', pa')"
  shows "frontier_ok s'"
proof -
  let ?ri = "if is_valid_internal_url lib s u
             then Some (check_redirect_chain (link_head l) u) else None"
  let ?s1 = "store_redirect s page_url depth l (extract_anchor_text l) ?ri"
  let ?s2 = "build_analysis ?s1 page_url l (extract_anchor_text l)
               (is_valid_internal_url lib s u) ?ri u"
  have "frontier_ok ?s1 = frontier_ok s"
    by (rule frontier_ok_cong) (simp_all add: store_redirect_def split: option.splits)
  moreover have "frontier_ok ?s2 = frontier_ok ?s1"
    by (rule frontier_ok_cong) (simp_all add: build_analysis_def)
  ultimately have "frontier_ok ?s2"
    using assms(2) by simp
  then have "frontier_ok (add_to_queue ?s2 depth (is_valid_internal_url lib s u) ?ri u)"
    using assms(1) by (simp add: frontier_ok_add_to_queue)
  moreover from assms(3)
  have "s' = add_to_queue ?s2 depth (is_valid_internal_url lib s u) ?ri u"
    by (simp add: record_link_def Let_def)
  ultimately show ?thesis by simp
qed

lemma frontier_ok_extract_loop:
  "0 \<le> depth \<Longrightarrow> frontier_ok s
     \<Longrightarrow> extract_loop lib page_url depth meth index links s pa = (s', r)
     \<Longrightarrow> frontier_ok s'"
proof (induction links arbitrary: s pa index)
  case Nil
  then show ?case by simp
next
  case (Cons l links)
  let ?href = "strip (get_attr (link_href l) [])"
  show ?case
  proof (cases "?href = [] \<or> startswith ?href ''javascript:'' \<or> startswith ?href ''tel:''")
    case True
    with Cons.prems(3)
    have "extract_loop lib page_url depth meth (index + 1) links s pa = (s', r)"
      by (simp add: Let_def)
    with Cons.prems(1,2) show ?thesis by (rule Cons.IH)
  next
    case False
    show ?thesis
    proof (cases "urljoin lib page_url ?href")
      case (Inl e)
      with False Cons.prems(3) have "s' = s"
        by (simp add: Let_def)
      with Cons.prems(2) show ?thesis by simp
    next
      case (Inr u)
      obtain s1 pa1 where r1:
        "record_link lib page_url depth meth index l ?href u s pa = (s1, pa1)"
        by (cases "record_link lib page_url depth meth index l ?href u s pa")
      with False Inr Cons.prems(3)
      have "extract_loop lib page_url depth meth (index + 1) links s1 pa1 = (s', r)"
        by (simp add: Let_def)
      moreover have "frontier_ok s1"
        using Cons.prems(1,2) r1 by (rule frontier_ok_record_link)
      ultimately show ?thesis
        using Cons.prems(1) Cons.IH by blast
    qed
  qed
qed

lemma frontier_ok_extract_anchor_data:
  assumes "0 \<le> depth" "frontier_ok s"
    "extract_anchor_data lib s links page_url depth meth = (s', r)"
  shows "frontier_ok s'"
proof -
  obtain s1 r1 where l: "extract_loop lib page_url depth meth 0 links s [] = (s1, r1)"
    by (cases "extract_loop lib page_url depth meth 0 links s []")
  have ok1: "frontier_ok s1"
    using assms(1,2) l by (rule frontier_ok_extract_loop)
  show ?thesis
  proof (cases r1)
    case (Inl e)
    with l assms(3) have "s' = s1" by (simp add: extract_anchor_data_def)
    with ok1 show ?thesis by simp
  next
    case (Inr pa)
    with l assms(3) have "s' = s1\<lparr> anchor_tags := anchor_tags s1 @ pa \<rparr>"
      by (auto simp: extract_anchor_data_def)
    then have "frontier_ok s' = frontier_ok s1"
      by (simp add: frontier_ok_def)
    with ok1 show ?thesis by simp
  qed
qed

lemma frontier_ok_crawl_page:
  assumes "0 \<le> depth" "frontier_ok s" "crawl_page lib s url depth = (s', ok, m)"
  shows "frontier_ok s'"
  using assms(3)
proof (cases rule: crawl_page_cases)
  case failed
  with assms(2) show ?thesis by simp
next
  case (extract_error response e)
  with assms(1,2) show ?thesis by (blast intro: frontier_ok_extract_anchor_data)
next
  case (requests response anchors)
  with assms(1,2) show ?thesis by (blast intro: frontier_ok_extract_anchor_data)
next
  case (selenium response s1 anchors sel)
  have ok1: "frontier_ok s1"
    using assms(1,2) selenium(2) by (rule frontier_ok_extract_anchor_data)
  have "frontier_ok (remove_initial_anchors s1 url) = frontier_ok s1"
    by (simp add: frontier_ok_def remove_initial_anchors_def)
  with ok1 have ok2: "frontier_ok (remove_initial_anchors s1 url)"
    by simp
  show ?thesis
  proof (cases "driver_links lib url")
    case None
    with selenium(4) have "s' = remove_initial_anchors s1 url"
      by (simp add: extract_anchor_data_selenium_def)
    with ok2 show ?thesis by simp
  next
    case (Some links)
    obtain s2 r2 where e: "extract_anchor_data lib (remove_initial_anchors s1 url) links url
        depth ''selenium'' = (s2, r2)"
      by (cases "extract_anchor_data lib (remove_initial_anchors s1 url) links url depth
        ''selenium''")
    with Some selenium(4) have "s' = s2"
      by (cases r2) (simp_all add: extract_anchor_data_selenium_def)
    moreover have "frontier_ok s2"
      using assms(1) ok2 e by (rule frontier_ok_extract_anchor_data)
    ultimately show ?thesis by simp
  qed
qed

lemma loop_body_limits:
  assumes "loop_body lib (s, c) = Some (s', c')"
  shows "max_pages s' = max_pages s \<and> max_depth s' = max_depth s"
  using assms
proof (cases rule: loop_body_cases)
  case (discard url depth rest)
  then show ?thesis by simp
next
  case (dispatch url depth rest ok m)
  from crawl_page_other_pages [OF dispatch(5)] show ?thesis
    by (simp add: other_pages_def)
qed

lemma frontier_ok_loop_body:
  assumes "frontier_ok s" "loop_body lib (s, c) = Some (s', c')"
  shows "frontier_ok s'"
  using assms(2)
proof (cases rule: loop_body_cases)
  case (discard url depth rest)
  with assms(1) show ?thesis
    by (auto simp: frontier_ok_def)
next
  case (dispatch url depth rest ok m)
  let ?s = "s\<lparr> urls_to_visit := rest, visited_urls := insert url (visited_urls s) \<rparr>"
  from assms(1) dispatch(1) have d: "0 \<le> depth"
    by (auto simp: frontier_ok_def)
  from assms(1) dispatch(1) have "frontier_ok ?s"
    by (auto simp: frontier_ok_def)
  with d show ?thesis
    using dispatch(5) by (rule frontier_ok_crawl_page)
qed

lemma frontier_ok_frontiers:
  "frontier_ok (fst st) \<Longrightarrow> fr \<in> set (frontiers n lib st)
     \<Longrightarrow> int (length fr) \<le> max 1 (max_pages (fst st))
        \<and> list_all (\<lambda>(u, d). d = 0 \<or> (0 < d \<and> d \<le> max_depth (fst st))) fr"
proof (induction n arbitrary: st)
  case 0
  then show ?case by (simp add: frontier_ok_def)
next
  case (Suc n)
  obtain s c where st: "st = (s, c)" by (cases st)
  show ?case
  proof (cases "fr = urls_to_visit (fst st)")
    case True
    with Suc.prems(1) show ?thesis by (simp add: frontier_ok_def)
  next
    case False
    show ?thesis
    proof (cases "loop_body lib st")
      case None
      with False Suc.prems(2) show ?thesis by simp
    next
      case (Some st')
      with False Suc.prems(2) have fr: "fr \<in> set (frontiers n lib st')"
        by simp
      obtain s' c' where st': "st' = (s', c')" by (cases st')
      from Some st st' Suc.prems(1) have "frontier_ok (fst st')"
        using frontier_ok_loop_body by auto
      from Suc.IH [OF this fr] loop_body_limits [of lib s c s' c'] Some st st'
      show ?thesis by simp
    qed
  qed
qed


text \<open>
  Claim C2 does not hold as it is written: the number of distinct URLs that are ever
  enqueued is not bounded by \<open>max_pages\<close>. The test before an entry is appended compares
  the current length of the queue with \<open>max_pages\<close>, and the queue shrinks each time an
  entry is taken from it. On the example site with \<open>max_pages = 1\<close> the seed is in the
  queue at the start, and the first pass, having taken it out, appends \<open>/b\<close>: two
  distinct URLs.
\<close>

theorem frontier_bound_counterexample:
  "analyzer_init ex_lib ''a.test'' 1 3 0 = Some (ex_analyzer 1 3 0)
   \<and> max_pages (ex_analyzer 1 3 0) = 1
   \<and> enqueued 1 ex_lib (ex_analyzer 1 3 0, 0)
        = [(''https://a.test'', 0), (''https://a.test/b'', 1)]
   \<and> length (remdups (map fst (enqueued 1 ex_lib (ex_analyzer 1 3 0, 0)))) = 2"
  by code_simp

text \<open>
  Claim C2, amended. For every crawl job, at the start of each pass of the loop and at
  the end of the last one the queue holds at most \<open>max_pages\<close> entries, or one if
  \<open>max_pages\<close> is smaller, and every entry is at depth 0, as the seed is, or at a depth
  from 1 to \<open>max_depth\<close>. The block that extends the queue appends nothing or the single
  entry for the link's final URL at depth + 1, and appends it only when the link is
  internal, the page's depth is strictly below \<open>max_depth\<close>, the final URL is not yet
  visited and the queue's current length is below \<open>max_pages\<close>.
\<close>

theorem frontier_bound:
  "(analyzer_init lib seed mp md threshold = Some s0
      \<longrightarrow> (\<forall>fr \<in> set (frontiers n lib (s0, 0)).
             int (length fr) \<le> max 1 mp
             \<and> (\<forall>(u, d) \<in> set fr. d = 0 \<or> (0 < d \<and> d \<le> md))))
   \<and> (urls_to_visit (add_to_queue s depth is_internal redirect_info absolute_url)
        = urls_to_visit s
      \<or> (urls_to_visit (add_to_queue s depth is_internal redirect_info absolute_url)
            = urls_to_visit s @ [(final_url_of redirect_info absolute_url, depth + 1)]
          \<and> is_internal \<and> depth < max_depth s
          \<and> final_url_of redirect_info absolute_url \<notin> visited_urls s
          \<and> int (length (urls_to_visit s)) < max_pages s))"
proof -
  have inv: "\<forall>fr \<in> set (frontiers n lib (s0, 0)).
             int (length fr) \<le> max 1 mp
             \<and> (\<forall>(u, d) \<in> set fr. d = 0 \<or> (0 < d \<and> d \<le> md))"
    if init: "analyzer_init lib seed mp md threshold = Some s0"
  proof
    fix fr
    assume fr: "fr \<in> set (frontiers n lib (s0, 0))"
    from init obtain b where s0: "urls_to_visit s0 = [(b, 0)]"
      "max_pages s0 = mp" "max_depth s0 = md"
      by (auto simp: analyzer_init_def split: option.splits)
    then have "frontier_ok (fst (s0, 0::int))"
      by (simp add: frontier_ok_def)
    from frontier_ok_frontiers [OF this fr] s0
    show "int (length fr) \<le> max 1 mp
             \<and> (\<forall>(u, d) \<in> set fr. d = 0 \<or> (0 < d \<and> d \<le> md))"
      by (simp add: list_all_iff)
  qed
  have app: "urls_to_visit (add_to_queue s depth is_internal redirect_info absolute_url)
        = urls_to_visit s
      \<or> (urls_to_visit (add_to_queue s depth is_internal redirect_info absolute_url)
            = urls_to_visit s @ [(final_url_of redirect_info absolute_url, depth + 1)]
          \<and> is_internal \<and> depth < max_depth s
          \<and> final_url_of redirect_info absolute_url \<notin> visited_urls s
          \<and> int (length (urls_to_visit s)) < max_pages s)"
    by (simp add: add_to_queue_def Let_def)
  from inv app show ?thesis
    by blast
qed

theorem frontier_bound_witness:
  "analyzer_init ex_lib ''a.test'' 2 3 0 = Some (ex_analyzer 2 3 0)
   \<and> frontiers 3 ex_lib (ex_analyzer 2 3 0, 0)
       = [[(''https://a.test'', 0)],
          [(''https://a.test/b'', 1), (''https://a.test/new'', 1)],
          [(''https://a.test/new'', 1)], []]
   \<and> list_all (\<lambda>fr. int (length fr) \<le> max 1 2) (frontiers 3 ex_lib (ex_analyzer 2 3 0, 0))"
proof -
  have i: "analyzer_init ex_lib ''a.test'' 2 3 0 = Some (ex_analyzer 2 3 0)"
    by code_simp
  have f: "frontiers 3 ex_lib (ex_analyzer 2 3 0, 0)
       = [[(''https://a.test'', 0)],
          [(''https://a.test/b'', 1), (''https://a.test/new'', 1)],
          [(''https://a.test/new'', 1)], []]"
    by code_simp
  from frontier_bound [where lib = ex_lib and seed = "''a.test''" and mp = 2 and md = 3
      and threshold = 0 and ?s0.0 = "ex_analyzer 2 3 0" and n = 3, THEN conjunct1] i
  have "\<forall>fr \<in> set (frontiers 3 ex_lib (ex_analyzer 2 3 0, 0)). int (length fr) \<le> max 1 2"
    by blast
  then have "list_all (\<lambda>fr. int (length fr) \<le> max 1 2)
      (frontiers 3 ex_lib (ex_analyzer 2 3 0, 0))"
    by (simp only: list_all_iff)
  with i f show ?thesis
    by (intro conjI)
qed

end
